theory Spec2Isabelle
  imports Main "HOL-Library.Word"
begin

unbundle bit_operations_syntax

section \<open>Machine types, target and bus trace\<close>

type_synonym uint8_t = "8 word"
type_synonym uint16_t = "16 word"
type_synonym uint32_t = "32 word"

text \<open>
  Memory as seen through a C pointer \<open>p\<close>: element \<open>i\<close> of the function is \<open>p[i]\<close>.
  Nothing bounds the index, as nothing does in C: an access past the caller's buffer
  reads or writes the neighbouring memory.
\<close>

type_synonym 'a ptr = "nat \<Rightarrow> 'a"

text \<open>Every access to a volatile register or to the millisecond counter, in program order.\<close>

datatype event =
    WrTWCR uint8_t
  | WrTWDR uint8_t
  | RdTWCR uint8_t
  | RdTWSR uint8_t
  | RdTWDR uint8_t
  | RdMsec uint32_t

text \<open>
  The target the code runs on. The control-bit positions \<open>TWINT\<close>, \<open>TWEA\<close>, \<open>TWSTA\<close>,
  \<open>TWSTO\<close>, \<open>TWEN\<close> come from \<open>avr/io.h\<close>, which the repository includes but does not
  contain, so they are parameters. The registers \<open>TWCR\<close>, \<open>TWSR\<close>, \<open>TWDR\<close> are volatile:
  what a read returns and what a write causes is decided by the peripheral, a state
  machine over a device state \<open>'d\<close> of its own. \<open>get_msec\<close> is \<open>millis()\<close> of msec.c, whose
  counter an interrupt routine advances. \<open>little_endian\<close> is the byte order in which the
  target stores a 16-bit object.
\<close>

record 'd target =
  TWINT :: nat
  TWEA :: nat
  TWSTA :: nat
  TWSTO :: nat
  TWEN :: nat
  little_endian :: bool
  get_TWCR :: "'d \<Rightarrow> uint8_t \<times> 'd"
  set_TWCR :: "uint8_t \<Rightarrow> 'd \<Rightarrow> 'd"
  get_TWSR :: "'d \<Rightarrow> uint8_t \<times> 'd"
  get_TWDR :: "'d \<Rightarrow> uint8_t \<times> 'd"
  set_TWDR :: "uint8_t \<Rightarrow> 'd \<Rightarrow> 'd"
  get_msec :: "'d \<Rightarrow> uint32_t \<times> 'd"

record 'd hw =
  dev :: 'd
  trace :: "event list"

definition rd_TWCR :: "'d target \<Rightarrow> 'd hw \<Rightarrow> uint8_t \<times> 'd hw" where
  "rd_TWCR T h = (case get_TWCR T (dev h) of (v, d) \<Rightarrow>
     (v, \<lparr>dev = d, trace = trace h @ [RdTWCR v]\<rparr>))"

definition rd_TWSR :: "'d target \<Rightarrow> 'd hw \<Rightarrow> uint8_t \<times> 'd hw" where
  "rd_TWSR T h = (case get_TWSR T (dev h) of (v, d) \<Rightarrow>
     (v, \<lparr>dev = d, trace = trace h @ [RdTWSR v]\<rparr>))"

definition rd_TWDR :: "'d target \<Rightarrow> 'd hw \<Rightarrow> uint8_t \<times> 'd hw" where
  "rd_TWDR T h = (case get_TWDR T (dev h) of (v, d) \<Rightarrow>
     (v, \<lparr>dev = d, trace = trace h @ [RdTWDR v]\<rparr>))"

definition wr_TWCR :: "'d target \<Rightarrow> uint8_t \<Rightarrow> 'd hw \<Rightarrow> 'd hw" where
  "wr_TWCR T v h = \<lparr>dev = set_TWCR T v (dev h), trace = trace h @ [WrTWCR v]\<rparr>"

definition wr_TWDR :: "'d target \<Rightarrow> uint8_t \<Rightarrow> 'd hw \<Rightarrow> 'd hw" where
  "wr_TWDR T v h = \<lparr>dev = set_TWDR T v (dev h), trace = trace h @ [WrTWDR v]\<rparr>"

definition millis :: "'d target \<Rightarrow> 'd hw \<Rightarrow> uint32_t \<times> 'd hw" where
  "millis T h = (case get_msec T (dev h) of (v, d) \<Rightarrow>
     (v, \<lparr>dev = d, trace = trace h @ [RdMsec v]\<rparr>))"

text \<open>\<open>1 << n\<close>, stored into or compared with an 8-bit register.\<close>

definition bv :: "nat \<Rightarrow> uint8_t" where
  "bv n = push_bit n 1"

subsection \<open>Status codes of I2Cdev.h\<close>

definition TW_START :: uint8_t where "TW_START = 0x08"
definition TW_REP_START :: uint8_t where "TW_REP_START = 0x10"
definition TW_MT_SLA_ACK :: uint8_t where "TW_MT_SLA_ACK = 0x18"
definition TW_MT_SLA_NACK :: uint8_t where "TW_MT_SLA_NACK = 0x20"
definition TW_MT_DATA_ACK :: uint8_t where "TW_MT_DATA_ACK = 0x28"
definition TW_MT_DATA_NACK :: uint8_t where "TW_MT_DATA_NACK = 0x30"
definition TW_MR_SLA_ACK :: uint8_t where "TW_MR_SLA_ACK = 0x40"
definition TW_MR_SLA_NACK :: uint8_t where "TW_MR_SLA_NACK = 0x48"
definition TW_MR_DATA_ACK :: uint8_t where "TW_MR_DATA_ACK = 0x50"
definition TW_MR_DATA_NACK :: uint8_t where "TW_MR_DATA_NACK = 0x58"

text \<open>
  The address of a single object \<open>v\<close>, as in \<open>&data\<close> or \<open>&b\<close>: memory holding \<open>v\<close> at index
  0. What lies at the other indices is never looked at by a transfer of one element; the
  model puts \<open>v\<close> there too.
\<close>

definition filled :: "'a \<Rightarrow> 'a ptr" where
  "filled v = (\<lambda>_. v)"

section \<open>Fastwire: the bus engine\<close>

text \<open>
  \<open>Fastwire_waitInt\<close>: \<open>int l = 250; while (!(TWCR & (1 << TWINT)) && l-- > 0); return l > 0;\<close>
  The counter runs from 250 down to -1 at most, so an unbounded \<open>int\<close> holds it. The
  decrement belongs to the second operand of \<open>&&\<close>: it happens only after a poll that
  saw \<open>TWINT\<close> clear.
\<close>

function waitInt_loop :: "'d target \<Rightarrow> int \<Rightarrow> 'd hw \<Rightarrow> int \<times> 'd hw" where
  "waitInt_loop T l h =
     (case rd_TWCR T h of (cr, h1) \<Rightarrow>
        if cr AND bv (TWINT T) = 0
        then (if l > 0 then waitInt_loop T (l - 1) h1 else (l - 1, h1))
        else (l, h1))"
  by pat_completeness auto
termination
  by (relation "measure (\<lambda>(T, l, h). nat l)") auto

declare waitInt_loop.simps [simp del]

definition Fastwire_waitInt :: "'d target \<Rightarrow> 'd hw \<Rightarrow> uint8_t \<times> 'd hw" where
  "Fastwire_waitInt T h =
     (case waitInt_loop T 250 h of (l, h1) \<Rightarrow> ((if l > 0 then 1 else 0), h1))"

definition Fastwire_stop :: "'d target \<Rightarrow> 'd hw \<Rightarrow> uint8_t \<times> 'd hw" where
  "Fastwire_stop T h =
     (let h1 = wr_TWCR T (bv (TWINT T) OR bv (TWEN T) OR bv (TWSTO T)) h in
      case Fastwire_waitInt T h1 of (ok, h2) \<Rightarrow>
        if ok = 0 then (1, h2) else (0, h2))"

definition Fastwire_write :: "'d target \<Rightarrow> uint8_t \<Rightarrow> 'd hw \<Rightarrow> uint8_t \<times> 'd hw" where
  "Fastwire_write T v h =
     (let h1 = wr_TWDR T v h;
          h2 = wr_TWCR T (bv (TWINT T) OR bv (TWEN T)) h1 in
      case Fastwire_waitInt T h2 of (ok, h3) \<Rightarrow>
        if ok = 0 then (1, h3)
        else case rd_TWSR T h3 of (sr, h4) \<Rightarrow>
          let twst = sr AND 0xF8 in
          if twst \<noteq> TW_MT_DATA_ACK then (2, h4) else (0, h4))"

text \<open>
  The address phase, a \<open>do ... while (twst == NACK && retry-- > 0)\<close> loop that occurs
  three times in the source (in \<open>Fastwire_beginTransmission\<close> and twice in
  \<open>Fastwire_readBuf\<close>) and differs only in the three error codes it returns, the
  address byte \<open>sla\<close> it sends and the status it retries on. \<open>Inl\<close> is an early
  \<open>return\<close> of the enclosing function with that code; \<open>Inr\<close> is the loop's exit with
  the last status \<open>twst\<close>. The 8-bit counter \<open>retry\<close> is decremented only when the
  status was the NACK.
\<close>

function addr_loop :: "'d target \<Rightarrow> uint8_t \<Rightarrow> uint8_t \<Rightarrow> uint8_t \<Rightarrow> uint8_t \<Rightarrow> uint8_t
    \<Rightarrow> uint8_t \<Rightarrow> 'd hw \<Rightarrow> (uint8_t + uint8_t) \<times> 'd hw" where
  "addr_loop T e1 e2 e3 sla nack retry h =
     (let h1 = wr_TWCR T (bv (TWINT T) OR bv (TWEN T) OR bv (TWSTO T) OR bv (TWSTA T)) h in
      case Fastwire_waitInt T h1 of (ok, h2) \<Rightarrow>
        if ok = 0 then (Inl e1, h2)
        else case rd_TWSR T h2 of (sr, h3) \<Rightarrow>
          if sr AND 0xF8 \<noteq> TW_START \<and> sr AND 0xF8 \<noteq> TW_REP_START then (Inl e2, h3)
          else
            let h4 = wr_TWDR T sla h3;
                h5 = wr_TWCR T (bv (TWINT T) OR bv (TWEN T)) h4 in
            case Fastwire_waitInt T h5 of (ok', h6) \<Rightarrow>
              if ok' = 0 then (Inl e3, h6)
              else case rd_TWSR T h6 of (sr', h7) \<Rightarrow>
                if sr' AND 0xF8 = nack \<and> retry > 0
                then addr_loop T e1 e2 e3 sla nack (retry - 1) h7
                else (Inr (sr' AND 0xF8), h7))"
  by pat_completeness auto
termination
  by (relation "measure (\<lambda>(T, e1, e2, e3, sla, nack, retry, h). unat retry)")
     (auto simp: unat_minus_one word_gt_0 unat_gt_0)

declare addr_loop.simps [simp del]

definition Fastwire_beginTransmission :: "'d target \<Rightarrow> uint8_t \<Rightarrow> 'd hw \<Rightarrow> uint8_t \<times> 'd hw" where
  "Fastwire_beginTransmission T device h =
     (case addr_loop T 1 2 3 (push_bit 1 device) TW_MT_SLA_NACK 2 h of
        (Inl e, h1) \<Rightarrow> (e, h1)
      | (Inr twst, h1) \<Rightarrow> if twst \<noteq> TW_MT_SLA_ACK then (4, h1) else (0, h1))"

section \<open>Transfer: byte and word access\<close>

text \<open>
  The data loop of \<open>I2Cdev_writeBytes\<close>: \<open>for (uint8_t i = 0; i < length; i++)
  Fastwire_write((uint8_t) data[i]);\<close>. The value \<open>Fastwire_write\<close> returns is dropped.
  The index stays below \<open>length \<le> 255\<close>, so it never wraps and a \<open>nat\<close> holds it.
\<close>

function writeBytes_loop :: "'d target \<Rightarrow> nat \<Rightarrow> nat \<Rightarrow> uint8_t ptr \<Rightarrow> 'd hw \<Rightarrow> 'd hw" where
  "writeBytes_loop T i n data h =
     (if i < n then writeBytes_loop T (i + 1) n data (snd (Fastwire_write T (data i) h))
      else h)"
  by pat_completeness auto
termination
  by (relation "measure (\<lambda>(T, i, n, data, h). n - i)") auto

declare writeBytes_loop.simps [simp del]

text \<open>
  \<open>I2Cdev_writeBytes\<close>: \<open>status\<close> is set to 0 and never assigned again (the call of
  \<open>Fastwire_endTransmission\<close> is commented out), and the function returns
  \<open>status == 0\<close>.
\<close>

definition I2Cdev_writeBytes :: "'d target \<Rightarrow> uint8_t \<Rightarrow> uint8_t \<Rightarrow> uint8_t \<Rightarrow> uint8_t ptr
    \<Rightarrow> 'd hw \<Rightarrow> uint8_t \<times> 'd hw" where
  "I2Cdev_writeBytes T devAddr regAddr len data h =
     (let status = (0 :: uint8_t);
          h1 = snd (Fastwire_beginTransmission T devAddr h);
          h2 = snd (Fastwire_write T regAddr h1);
          h3 = writeBytes_loop T 0 (unat len) data h2;
          h4 = snd (Fastwire_stop T h3) in
      ((if status = 0 then 1 else 0), h4))"

definition I2Cdev_writeByte :: "'d target \<Rightarrow> uint8_t \<Rightarrow> uint8_t \<Rightarrow> uint8_t \<Rightarrow> 'd hw
    \<Rightarrow> uint8_t \<times> 'd hw" where
  "I2Cdev_writeByte T devAddr regAddr data h =
     I2Cdev_writeBytes T devAddr regAddr 1 (filled data) h"

text \<open>
  The loop of \<open>I2Cdev_writeWords\<close>:
  \<^verbatim>\<open>for (uint8_t i = 0; i < length * 2; i++) {
    Fastwire_write((uint8_t)(data[i] >> 8));
    status = Fastwire_write((uint8_t)data[i++]);
    if (status != 0) break; }\<close>
  The index is an 8-bit counter compared with the \<open>int\<close> \<open>length * 2\<close>; it is
  incremented in the body and again by the loop's step. Nothing bounds the number of
  iterations when \<open>length * 2\<close> exceeds 255, so the loop is a partial function: \<open>None\<close>
  is a run that never leaves it. The result is the value of \<open>status\<close> at the exit.
\<close>

partial_function (option) writeWords_loop :: "'d target \<Rightarrow> uint8_t \<Rightarrow> uint8_t \<Rightarrow> uint16_t ptr
    \<Rightarrow> uint8_t \<Rightarrow> 'd hw \<Rightarrow> (uint8_t \<times> 'd hw) option" where
  "writeWords_loop T i len data status h =
     (if uint i < uint len * 2
      then
        let h1 = snd (Fastwire_write T (ucast (drop_bit 8 (data (unat i)))) h);
            r = Fastwire_write T (ucast (data (unat i))) h1;
            i1 = i + 1
        in if fst r \<noteq> 0 then Some (fst r, snd r)
           else writeWords_loop T (i1 + 1) len data (fst r) (snd r)
      else Some (status, h))"

definition I2Cdev_writeWords :: "'d target \<Rightarrow> uint8_t \<Rightarrow> uint8_t \<Rightarrow> uint8_t \<Rightarrow> uint16_t ptr
    \<Rightarrow> 'd hw \<Rightarrow> (uint8_t \<times> 'd hw) option" where
  "I2Cdev_writeWords T devAddr regAddr len data h =
     (let h1 = snd (Fastwire_beginTransmission T devAddr h);
          h2 = snd (Fastwire_write T regAddr h1) in
      case writeWords_loop T 0 len data 0 h2 of
        None \<Rightarrow> None
      | Some (status, h3) \<Rightarrow>
          let h4 = snd (Fastwire_stop T h3) in
          Some ((if status = 0 then 1 else 0), h4))"

definition I2Cdev_writeWord :: "'d target \<Rightarrow> uint8_t \<Rightarrow> uint8_t \<Rightarrow> uint16_t \<Rightarrow> 'd hw
    \<Rightarrow> (uint8_t \<times> 'd hw) option" where
  "I2Cdev_writeWord T devAddr regAddr data h =
     I2Cdev_writeWords T devAddr regAddr 1 (filled data) h"

text \<open>
  The data phase of \<open>Fastwire_readBuf\<close>:
  \<^verbatim>\<open>for (uint8_t i = 0; i < num; i++) {
    if (i == num - 1) TWCR = (1 << TWINT) | (1 << TWEN);
    else              TWCR = (1 << TWINT) | (1 << TWEN) | (1 << TWEA);
    if (!Fastwire_waitInt()) return 26;
    twst = TWSR & 0xF8;
    if (twst != TW_MR_DATA_ACK && twst != TW_MR_DATA_NACK) return twst;
    data[i] = TWDR; }\<close>
  \<open>Some c\<close> is the early \<open>return c\<close>, \<open>None\<close> the normal end of the loop. Inside the
  loop \<open>i < num\<close>, so \<open>num - 1\<close> is not negative and \<open>i\<close> does not wrap.
\<close>

function readBuf_loop :: "'d target \<Rightarrow> nat \<Rightarrow> nat \<Rightarrow> uint8_t ptr \<Rightarrow> 'd hw
    \<Rightarrow> uint8_t option \<times> uint8_t ptr \<times> 'd hw" where
  "readBuf_loop T i num data h =
     (if i < num
      then
        let h1 = (if i = num - 1
                  then wr_TWCR T (bv (TWINT T) OR bv (TWEN T)) h
                  else wr_TWCR T (bv (TWINT T) OR bv (TWEN T) OR bv (TWEA T)) h) in
        case Fastwire_waitInt T h1 of (ok, h2) \<Rightarrow>
          if ok = 0 then (Some 26, data, h2)
          else case rd_TWSR T h2 of (sr, h3) \<Rightarrow>
            if sr AND 0xF8 \<noteq> TW_MR_DATA_ACK \<and> sr AND 0xF8 \<noteq> TW_MR_DATA_NACK
            then (Some (sr AND 0xF8), data, h3)
            else case rd_TWDR T h3 of (v, h4) \<Rightarrow>
              readBuf_loop T (i + 1) num (data(i := v)) h4
      else (None, data, h))"
  by pat_completeness auto
termination
  by (relation "measure (\<lambda>(T, i, num, data, h). num - i)") auto

declare readBuf_loop.simps [simp del]

definition Fastwire_readBuf :: "'d target \<Rightarrow> uint8_t \<Rightarrow> uint8_t \<Rightarrow> uint8_t ptr \<Rightarrow> uint8_t
    \<Rightarrow> 'd hw \<Rightarrow> uint8_t \<times> uint8_t ptr \<times> 'd hw" where
  "Fastwire_readBuf T device address data num h =
     (case addr_loop T 16 17 18 (device AND 0xFE) TW_MT_SLA_NACK 2 h of
        (Inl e, h1) \<Rightarrow> (e, data, h1)
      | (Inr twst, h1) \<Rightarrow>
          if twst \<noteq> TW_MT_SLA_ACK then (19, data, h1)
          else
            let h2 = wr_TWDR T address h1;
                h3 = wr_TWCR T (bv (TWINT T) OR bv (TWEN T)) h2 in
            case Fastwire_waitInt T h3 of (ok, h4) \<Rightarrow>
              if ok = 0 then (20, data, h4)
              else case rd_TWSR T h4 of (sr, h5) \<Rightarrow>
                if sr AND 0xF8 \<noteq> TW_MT_DATA_ACK then (21, data, h5)
                else
                  (case addr_loop T 22 23 24 (device OR 0x01) TW_MR_SLA_NACK 2 h5 of
                     (Inl e, h6) \<Rightarrow> (e, data, h6)
                   | (Inr twst', h6) \<Rightarrow>
                       if twst' \<noteq> TW_MR_SLA_ACK then (25, data, h6)
                       else
                         (case readBuf_loop T 0 (unat num) data h6 of
                            (Some e, data', h7) \<Rightarrow> (e, data', h7)
                          | (None, data', h7) \<Rightarrow> (0, data', snd (Fastwire_stop T h7)))))"

text \<open>
  The end of \<open>I2Cdev_readBytes\<close> and \<open>I2Cdev_readWords\<close>:
  \<open>if (timeout > 0 && millis() - t1 >= timeout && count < length) count = -1;\<close>
  \<open>millis()\<close> is called only when \<open>timeout > 0\<close>. \<open>count\<close> is an \<open>int8_t\<close>, \<open>length\<close> a
  \<open>uint8_t\<close>; both are compared as \<open>int\<close>. The function returns \<open>count\<close> as a
  \<open>uint8_t\<close>, the same eight bits.
\<close>

definition check_timeout :: "'d target \<Rightarrow> uint16_t \<Rightarrow> uint32_t \<Rightarrow> uint8_t \<Rightarrow> uint8_t
    \<Rightarrow> 'd hw \<Rightarrow> uint8_t \<times> 'd hw" where
  "check_timeout T timeout t1 count len h =
     (if timeout > 0
      then case millis T h of (t2, h1) \<Rightarrow>
        if t2 - t1 \<ge> ucast timeout \<and> sint count < uint len then (- 1, h1) else (count, h1)
      else (count, h))"

definition I2Cdev_readBytes :: "'d target \<Rightarrow> uint8_t \<Rightarrow> uint8_t \<Rightarrow> uint8_t \<Rightarrow> uint8_t ptr
    \<Rightarrow> uint16_t \<Rightarrow> 'd hw \<Rightarrow> uint8_t \<times> uint8_t ptr \<times> 'd hw" where
  "I2Cdev_readBytes T devAddr regAddr len data timeout h =
     (case millis T h of (t1, h1) \<Rightarrow>
      case Fastwire_readBuf T (push_bit 1 devAddr) regAddr data len h1 of (status, data', h2) \<Rightarrow>
        let count = (if status = 0 then len else - 1) in
        case check_timeout T timeout t1 count len h2 of (count', h3) \<Rightarrow>
          (count', data', h3))"

definition I2Cdev_readByte :: "'d target \<Rightarrow> uint8_t \<Rightarrow> uint8_t \<Rightarrow> uint8_t ptr \<Rightarrow> uint16_t
    \<Rightarrow> 'd hw \<Rightarrow> uint8_t \<times> uint8_t ptr \<times> 'd hw" where
  "I2Cdev_readByte T devAddr regAddr data timeout h =
     I2Cdev_readBytes T devAddr regAddr 1 data timeout h"

text \<open>
  \<open>I2Cdev_readWords\<close> declares \<open>uint16_t intermediate[(uint8_t)length]\<close>, hands it to
  \<open>Fastwire_readBuf\<close> as a byte buffer for \<open>(uint8_t)(length * 2)\<close> bytes, and then
  reads it back as 16-bit elements: \<open>data[i] = (intermediate[2*i] << 8) |
  intermediate[2*i + 1]\<close>. \<open>frame\<close> is the memory at the address of \<open>intermediate\<close> on
  entry, byte by byte: the array is not initialised, and the elements from index
  \<open>length\<close> on lie behind it. \<open>load16\<close> is the 16-bit object at element index \<open>k\<close>
  of that memory in the target's byte order.
\<close>

definition load16 :: "bool \<Rightarrow> uint8_t ptr \<Rightarrow> nat \<Rightarrow> uint16_t" where
  "load16 le m k =
     (if le then push_bit 8 (ucast (m (2 * k + 1))) OR ucast (m (2 * k))
      else push_bit 8 (ucast (m (2 * k))) OR ucast (m (2 * k + 1)))"

function readWords_loop :: "bool \<Rightarrow> uint8_t ptr \<Rightarrow> nat \<Rightarrow> nat \<Rightarrow> uint16_t ptr \<Rightarrow> uint16_t ptr" where
  "readWords_loop le intermediate i n data =
     (if i < n
      then readWords_loop le intermediate (i + 1) n
             (data(i := push_bit 8 (load16 le intermediate (2 * i))
                          OR load16 le intermediate (2 * i + 1)))
      else data)"
  by pat_completeness auto
termination
  by (relation "measure (\<lambda>(le, m, i, n, data). n - i)") auto

declare readWords_loop.simps [simp del]

definition I2Cdev_readWords :: "'d target \<Rightarrow> uint8_t \<Rightarrow> uint8_t \<Rightarrow> uint8_t \<Rightarrow> uint16_t ptr
    \<Rightarrow> uint16_t \<Rightarrow> uint8_t ptr \<Rightarrow> 'd hw \<Rightarrow> uint8_t \<times> uint16_t ptr \<times> 'd hw" where
  "I2Cdev_readWords T devAddr regAddr len data timeout frame h =
     (case millis T h of (t1, h1) \<Rightarrow>
      case Fastwire_readBuf T (push_bit 1 devAddr) regAddr frame (len * 2) h1
      of (status, intermediate, h2) \<Rightarrow>
        let count = (if status = 0 then len else - 1);
            data' = (if status = 0
                     then readWords_loop (little_endian T) intermediate 0 (unat len) data
                     else data) in
        case check_timeout T timeout t1 count len h2 of (count', h3) \<Rightarrow>
          (count', data', h3))"

definition I2Cdev_readWord :: "'d target \<Rightarrow> uint8_t \<Rightarrow> uint8_t \<Rightarrow> uint16_t ptr \<Rightarrow> uint16_t
    \<Rightarrow> uint8_t ptr \<Rightarrow> 'd hw \<Rightarrow> uint8_t \<times> uint16_t ptr \<times> 'd hw" where
  "I2Cdev_readWord T devAddr regAddr data timeout frame h =
     I2Cdev_readWords T devAddr regAddr 1 data timeout frame h"

section \<open>FieldAccessor: bit fields of a register\<close>

text \<open>
  \<open>((1 << length) - 1) << (bitStart - length + 1)\<close> is computed in \<open>int\<close> and stored
  into a \<open>uint8_t\<close>. The model computes in unbounded integers and truncates at the
  store, which is what the 16-bit \<open>int\<close> of the target gives as long as neither shift
  count leaves the range 0..15. For \<open>bitStart + 1 < length\<close> the shift count is negative
  and C leaves the result undefined; \<open>nat\<close> maps such a count to 0 here, and no
  statement below relies on that.
\<close>

definition field_shift :: "uint8_t \<Rightarrow> uint8_t \<Rightarrow> int" where
  "field_shift bitStart len = uint bitStart - uint len + 1"

definition field_mask :: "uint8_t \<Rightarrow> uint8_t \<Rightarrow> uint8_t" where
  "field_mask bitStart len =
     word_of_int (push_bit (nat (field_shift bitStart len)) (push_bit (unat len) 1 - 1))"

text \<open>
  \<open>I2Cdev_readBit\<close>. \<open>b0\<close> is the indeterminate initial value of the local \<open>b\<close>. The
  store \<open>*data = b & (1 << bitNum)\<close> is not guarded, so the value of \<open>*data\<close> on entry
  plays no part; the result holds \<open>*data\<close> on return. \<open>1 << bitNum\<close> is computed in
  \<open>int\<close> and the conjunction truncated at the store, as for the mask below.
\<close>

definition I2Cdev_readBit :: "'d target \<Rightarrow> uint8_t \<Rightarrow> uint8_t \<Rightarrow> uint8_t \<Rightarrow> uint16_t
    \<Rightarrow> uint8_t \<Rightarrow> 'd hw \<Rightarrow> uint8_t \<times> uint8_t \<times> 'd hw" where
  "I2Cdev_readBit T devAddr regAddr bitNum timeout b0 h =
     (case I2Cdev_readByte T devAddr regAddr (filled b0) timeout h of (count, m, h1) \<Rightarrow>
        (count, m 0 AND word_of_int (push_bit (unat bitNum) 1), h1))"

text \<open>
  \<open>I2Cdev_readBits\<close>. \<open>b0\<close> is the indeterminate initial value of the local \<open>b\<close>,
  \<open>data\<close> the value of \<open>*data\<close> on entry; the result holds \<open>*data\<close> on return.
\<close>

definition I2Cdev_readBits :: "'d target \<Rightarrow> uint8_t \<Rightarrow> uint8_t \<Rightarrow> uint8_t \<Rightarrow> uint8_t \<Rightarrow> uint8_t
    \<Rightarrow> uint16_t \<Rightarrow> uint8_t \<Rightarrow> 'd hw \<Rightarrow> uint8_t \<times> uint8_t \<times> 'd hw" where
  "I2Cdev_readBits T devAddr regAddr bitStart len data timeout b0 h =
     (case I2Cdev_readByte T devAddr regAddr (filled b0) timeout h of (count, m, h1) \<Rightarrow>
        if count \<noteq> 0
        then
          let mask = field_mask bitStart len;
              b = m 0 AND mask;
              b' = drop_bit (nat (field_shift bitStart len)) b in
          (count, b', h1)
        else (count, data, h1))"

text \<open>
  \<open>I2Cdev_writeBit\<close> and \<open>I2Cdev_writeBits\<close> read the register without a timeout
  argument (\<open>I2Cdev_writeBits\<close> through the undeclared name \<open>readByte\<close>, taken to be
  \<open>I2Cdev_readByte\<close>); the header's default argument is the global
  \<open>I2Cdev_readTimeout\<close>, here the parameter \<open>readTimeout\<close>.
\<close>

definition I2Cdev_writeBit :: "'d target \<Rightarrow> uint16_t \<Rightarrow> uint8_t \<Rightarrow> uint8_t \<Rightarrow> uint8_t \<Rightarrow> uint8_t
    \<Rightarrow> uint8_t \<Rightarrow> 'd hw \<Rightarrow> uint8_t \<times> 'd hw" where
  "I2Cdev_writeBit T readTimeout devAddr regAddr bitNum data b0 h =
     (case I2Cdev_readByte T devAddr regAddr (filled b0) readTimeout h of (count, m, h1) \<Rightarrow>
        let b = (if data \<noteq> 0 then m 0 OR bv (unat bitNum) else m 0 AND NOT (bv (unat bitNum))) in
        I2Cdev_writeByte T devAddr regAddr b h1)"

text \<open>\<open>w0\<close> is the indeterminate initial value of the local \<open>w\<close>.\<close>

definition I2Cdev_writeBitW :: "'d target \<Rightarrow> uint16_t \<Rightarrow> uint8_t \<Rightarrow> uint8_t \<Rightarrow> uint8_t \<Rightarrow> uint16_t
    \<Rightarrow> uint16_t \<Rightarrow> uint8_t ptr \<Rightarrow> 'd hw \<Rightarrow> (uint8_t \<times> 'd hw) option" where
  "I2Cdev_writeBitW T readTimeout devAddr regAddr bitNum data w0 frame h =
     (case I2Cdev_readWord T devAddr regAddr (filled w0) readTimeout frame h of (count, m, h1) \<Rightarrow>
        let w = (if data \<noteq> 0 then m 0 OR push_bit (unat bitNum) 1
                 else m 0 AND NOT (push_bit (unat bitNum) 1)) in
        I2Cdev_writeWord T devAddr regAddr w h1)"

definition I2Cdev_writeBits :: "'d target \<Rightarrow> uint16_t \<Rightarrow> uint8_t \<Rightarrow> uint8_t \<Rightarrow> uint8_t \<Rightarrow> uint8_t
    \<Rightarrow> uint8_t \<Rightarrow> uint8_t \<Rightarrow> 'd hw \<Rightarrow> uint8_t \<times> 'd hw" where
  "I2Cdev_writeBits T readTimeout devAddr regAddr bitStart len data b0 h =
     (case I2Cdev_readByte T devAddr regAddr (filled b0) readTimeout h of (count, m, h1) \<Rightarrow>
        if count \<noteq> 0
        then
          let mask = field_mask bitStart len;
              data1 = push_bit (nat (field_shift bitStart len)) data;
              data2 = data1 AND mask;
              b = m 0 AND NOT mask;
              b' = b OR data2 in
          I2Cdev_writeByte T devAddr regAddr b' h1
        else (0, h1))"

section \<open>Two peripherals to run the code on\<close>

text \<open>
  A scripted peripheral, for running the code on chosen register values: \<open>TWCR\<close>
  reads the next value of \<open>cr_script\<close> and, once that is used up, always \<open>cr_rest\<close>;
  \<open>TWSR\<close>, \<open>TWDR\<close> and the millisecond counter read the next value of their script, and
  0 once it is used up. Writes change nothing.
\<close>

record script =
  cr_script :: "uint8_t list"
  cr_rest :: uint8_t
  sr_script :: "uint8_t list"
  dr_script :: "uint8_t list"
  ms_script :: "uint32_t list"

definition next_of :: "'a list \<Rightarrow> 'a \<Rightarrow> 'a" where
  "next_of xs d = (case xs of [] \<Rightarrow> d | x # _ \<Rightarrow> x)"

definition scripted :: "script target" where
  "scripted = \<lparr>TWINT = 7, TWEA = 6, TWSTA = 5, TWSTO = 4, TWEN = 2, little_endian = True,
     get_TWCR = (\<lambda>d. (next_of (cr_script d) (cr_rest d), d\<lparr>cr_script := tl (cr_script d)\<rparr>)),
     set_TWCR = (\<lambda>v d. d),
     get_TWSR = (\<lambda>d. (next_of (sr_script d) 0, d\<lparr>sr_script := tl (sr_script d)\<rparr>)),
     get_TWDR = (\<lambda>d. (next_of (dr_script d) 0, d\<lparr>dr_script := tl (dr_script d)\<rparr>)),
     set_TWDR = (\<lambda>v d. d),
     get_msec = (\<lambda>d. (next_of (ms_script d) 0, d\<lparr>ms_script := tl (ms_script d)\<rparr>))\<rparr>"

text \<open>The scripted peripheral before anything has happened on it.\<close>

definition boot :: "uint8_t \<Rightarrow> uint8_t list \<Rightarrow> uint8_t list \<Rightarrow> script hw" where
  "boot cr srs drs =
     \<lparr>dev = \<lparr>cr_script = [], cr_rest = cr, sr_script = srs, dr_script = drs, ms_script = []\<rparr>,
      trace = []\<rparr>"

text \<open>The same with readings of \<open>TWCR\<close> that come before the constant one.\<close>

definition boot_polls ::
  "uint8_t list \<Rightarrow> uint8_t \<Rightarrow> uint8_t list \<Rightarrow> uint8_t list \<Rightarrow> script hw" where
  "boot_polls crs cr srs drs =
     \<lparr>dev = \<lparr>cr_script = crs, cr_rest = cr, sr_script = srs, dr_script = drs, ms_script = []\<rparr>,
      trace = []\<rparr>"

text \<open>
  A simulated bus with one slave that stores what is written to it: a register file
  \<open>regs\<close> with an auto-incrementing register pointer \<open>ptr\<close>, answering the 7-bit address
  \<open>slave\<close>. Every command completes at once (\<open>TWINT\<close> and \<open>TWEN\<close> read as set). A command
  with \<open>TWSTA\<close> puts a START on the bus; one with \<open>TWSTO\<close> alone a STOP; any other
  command transfers one byte in the direction the address byte chose, and the status
  register reports what the slave answered.
\<close>

datatype phase = Idle | Addressing | RegPtr | Writing | Reading

record mock =
  slave :: uint8_t
  regs :: "uint8_t \<Rightarrow> uint8_t"
  ptr :: uint8_t
  phase :: phase
  twdr :: uint8_t
  twsr :: uint8_t
  now :: uint32_t

definition mock_TWCR :: "uint8_t \<Rightarrow> mock \<Rightarrow> mock" where
  "mock_TWCR v d =
     (if bit v 5
      then d\<lparr>phase := Addressing,
             twsr := (if phase d = Idle \<or> bit v 4 then TW_START else TW_REP_START)\<rparr>
      else if bit v 4 then d\<lparr>phase := Idle, twsr := 0xF8\<rparr>
      else case phase d of
        Idle \<Rightarrow> d\<lparr>twsr := 0xF8\<rparr>
      | Addressing \<Rightarrow>
          if twdr d AND 0xFE = push_bit 1 (slave d)
          then (if bit (twdr d) 0 then d\<lparr>phase := Reading, twsr := TW_MR_SLA_ACK\<rparr>
                else d\<lparr>phase := RegPtr, twsr := TW_MT_SLA_ACK\<rparr>)
          else d\<lparr>twsr := (if bit (twdr d) 0 then TW_MR_SLA_NACK else TW_MT_SLA_NACK)\<rparr>
      | RegPtr \<Rightarrow> d\<lparr>ptr := twdr d, phase := Writing, twsr := TW_MT_DATA_ACK\<rparr>
      | Writing \<Rightarrow>
          d\<lparr>regs := (regs d)(ptr d := twdr d), ptr := ptr d + 1, twsr := TW_MT_DATA_ACK\<rparr>
      | Reading \<Rightarrow>
          d\<lparr>twdr := regs d (ptr d), ptr := ptr d + 1,
            twsr := (if bit v 6 then TW_MR_DATA_ACK else TW_MR_DATA_NACK)\<rparr>)"

definition mock_target :: "mock target" where
  "mock_target = \<lparr>TWINT = 7, TWEA = 6, TWSTA = 5, TWSTO = 4, TWEN = 2, little_endian = True,
     get_TWCR = (\<lambda>d. (0x84, d)),
     set_TWCR = mock_TWCR,
     get_TWSR = (\<lambda>d. (twsr d, d)),
     get_TWDR = (\<lambda>d. (twdr d, d)),
     set_TWDR = (\<lambda>v d. d\<lparr>twdr := v\<rparr>),
     get_msec = (\<lambda>d. (now d, d\<lparr>now := now d + 1\<rparr>))\<rparr>"

text \<open>
  The simulated slave 0x68 with every register holding 0xAF, before anything has
  happened on the bus.
\<close>

definition mock_boot :: "mock hw" where
  "mock_boot =
     \<lparr>dev = \<lparr>slave = 0x68, regs = (\<lambda>_. 0xAF), ptr = 0, phase = Idle, twdr = 0, twsr = 0xF8,
              now = 0\<rparr>,
      trace = []\<rparr>"

section \<open>What a run did on the bus\<close>

text \<open>The events a run from \<open>h\<close> to \<open>h'\<close> added to the trace.\<close>

definition run_events :: "'d hw \<Rightarrow> 'd hw \<Rightarrow> event list" where
  "run_events h h' = drop (length (trace h)) (trace h')"

text \<open>
  Projections of a trace: the bytes put into \<open>TWDR\<close> (what the master transmits), the
  commands written to \<open>TWCR\<close>, the values polled from \<open>TWCR\<close>, the values of
  \<open>TWSR & 0xF8\<close> the code looked at, and the bytes taken out of \<open>TWDR\<close>.
\<close>

fun twdr_writes :: "event list \<Rightarrow> uint8_t list" where
  "twdr_writes [] = []"
| "twdr_writes (WrTWDR v # es) = v # twdr_writes es"
| "twdr_writes (_ # es) = twdr_writes es"

fun twcr_writes :: "event list \<Rightarrow> uint8_t list" where
  "twcr_writes [] = []"
| "twcr_writes (WrTWCR v # es) = v # twcr_writes es"
| "twcr_writes (_ # es) = twcr_writes es"

fun twcr_reads :: "event list \<Rightarrow> uint8_t list" where
  "twcr_reads [] = []"
| "twcr_reads (RdTWCR v # es) = v # twcr_reads es"
| "twcr_reads (_ # es) = twcr_reads es"

fun statuses :: "event list \<Rightarrow> uint8_t list" where
  "statuses [] = []"
| "statuses (RdTWSR v # es) = (v AND 0xF8) # statuses es"
| "statuses (_ # es) = statuses es"

fun twdr_reads :: "event list \<Rightarrow> uint8_t list" where
  "twdr_reads [] = []"
| "twdr_reads (RdTWDR v # es) = v # twdr_reads es"
| "twdr_reads (_ # es) = twdr_reads es"

text \<open>The caller's buffer of \<open>I2Cdev_writeWords\<close> in the run below: two words, and the
  word that happens to follow them in memory.\<close>

definition two_words :: "uint16_t ptr" where
  "two_words = (\<lambda>i. if i = 0 then 0x1122 else if i = 1 then 0x3344 else 0xAABB)"

text \<open>\<open>h'\<close> continues the trace of \<open>h\<close>.\<close>

definition extends :: "'d hw \<Rightarrow> 'd hw \<Rightarrow> bool" where
  "extends h h' \<longleftrightarrow> (\<exists>evs. trace h' = trace h @ evs)"

text \<open>The four commands the code writes to \<open>TWCR\<close>.\<close>

abbreviation cmd_START :: "'d target \<Rightarrow> uint8_t" where
  "cmd_START T \<equiv> bv (TWINT T) OR bv (TWEN T) OR bv (TWSTO T) OR bv (TWSTA T)"

abbreviation cmd_GO :: "'d target \<Rightarrow> uint8_t" where
  "cmd_GO T \<equiv> bv (TWINT T) OR bv (TWEN T)"

abbreviation cmd_GO_ACK :: "'d target \<Rightarrow> uint8_t" where
  "cmd_GO_ACK T \<equiv> bv (TWINT T) OR bv (TWEN T) OR bv (TWEA T)"

abbreviation cmd_STOP :: "'d target \<Rightarrow> uint8_t" where
  "cmd_STOP T \<equiv> bv (TWINT T) OR bv (TWEN T) OR bv (TWSTO T)"

section \<open>Running the code\<close>

lemmas TW_defs = TW_START_def TW_REP_START_def TW_MT_SLA_ACK_def TW_MT_SLA_NACK_def
  TW_MT_DATA_ACK_def TW_MT_DATA_NACK_def TW_MR_SLA_ACK_def TW_MR_SLA_NACK_def
  TW_MR_DATA_ACK_def TW_MR_DATA_NACK_def

lemmas reg_defs = rd_TWCR_def rd_TWSR_def rd_TWDR_def wr_TWCR_def wr_TWDR_def millis_def

lemmas run_defs = Fastwire_waitInt_def Fastwire_stop_def Fastwire_write_def
  Fastwire_beginTransmission_def Fastwire_readBuf_def check_timeout_def
  I2Cdev_readBytes_def I2Cdev_readByte_def I2Cdev_readWords_def I2Cdev_readWord_def
  I2Cdev_writeBytes_def I2Cdev_writeByte_def I2Cdev_writeWords_def I2Cdev_writeWord_def

lemmas loop_simps = addr_loop.simps writeBytes_loop.simps readBuf_loop.simps
  readWords_loop.simps writeWords_loop.simps

lemmas scripted_defs = scripted_def boot_def next_of_def bv_def TW_defs filled_def

lemma waitInt_loop_ready:
  "fst (get_TWCR T (dev h)) AND bv (TWINT T) \<noteq> 0
     \<Longrightarrow> waitInt_loop T l h = (l, snd (rd_TWCR T h))"
  by (subst waitInt_loop.simps) (cases "get_TWCR T (dev h)", simp add: rd_TWCR_def)

lemmas exec = run_defs reg_defs scripted_defs loop_simps waitInt_loop_ready Let_def

section \<open>What each part of the bus engine adds to the trace\<close>


lemma extends_refl [simp]: "extends h h"
  by (simp add: extends_def)

lemma extends_trans: "extends a b \<Longrightarrow> extends b c \<Longrightarrow> extends a c"
  by (auto simp: extends_def)

lemma run_events_eq: "trace h' = trace h @ evs \<Longrightarrow> run_events h h' = evs"
  by (simp add: run_events_def)

lemma run_events_self [simp]: "run_events h h = []"
  by (simp add: run_events_def)

lemma extends_trace: "extends h h' \<Longrightarrow> trace h' = trace h @ run_events h h'"
  by (auto simp: extends_def run_events_def)

lemma run_events_trans:
  "extends a b \<Longrightarrow> extends b c \<Longrightarrow> run_events a c = run_events a b @ run_events b c"
  by (auto simp: extends_def run_events_def)

lemma twdr_writes_append [simp]: "twdr_writes (xs @ ys) = twdr_writes xs @ twdr_writes ys"
  by (induction xs rule: twdr_writes.induct) simp_all

lemma twcr_writes_append [simp]: "twcr_writes (xs @ ys) = twcr_writes xs @ twcr_writes ys"
  by (induction xs rule: twcr_writes.induct) simp_all

lemma twcr_reads_append [simp]: "twcr_reads (xs @ ys) = twcr_reads xs @ twcr_reads ys"
  by (induction xs rule: twcr_reads.induct) simp_all

lemma statuses_append [simp]: "statuses (xs @ ys) = statuses xs @ statuses ys"
  by (induction xs rule: statuses.induct) simp_all

lemma twdr_reads_append [simp]: "twdr_reads (xs @ ys) = twdr_reads xs @ twdr_reads ys"
  by (induction xs rule: twdr_reads.induct) simp_all

lemma polls_only [simp]:
  "twdr_writes (map RdTWCR vs) = []" "twcr_writes (map RdTWCR vs) = []"
  "twcr_reads (map RdTWCR vs) = vs" "statuses (map RdTWCR vs) = []"
  "twdr_reads (map RdTWCR vs) = []"
  by (induction vs) simp_all

lemma trace_wr [simp]:
  "trace (wr_TWCR T v h) = trace h @ [WrTWCR v]"
  "trace (wr_TWDR T v h) = trace h @ [WrTWDR v]"
  by (simp_all add: wr_TWCR_def wr_TWDR_def)

lemma trace_rd:
  "rd_TWCR T h = (v, h') \<Longrightarrow> trace h' = trace h @ [RdTWCR v]"
  "rd_TWSR T h = (v, h') \<Longrightarrow> trace h' = trace h @ [RdTWSR v]"
  "rd_TWDR T h = (v, h') \<Longrightarrow> trace h' = trace h @ [RdTWDR v]"
  "millis T h = (t, h') \<Longrightarrow> trace h' = trace h @ [RdMsec t]"
  by (auto simp: reg_defs split: prod.splits)

lemma waitInt_loop_trace:
  "waitInt_loop T l h = (l', h') \<Longrightarrow>
     \<exists>vs. trace h' = trace h @ map RdTWCR vs \<and>
          (0 < l' \<longrightarrow> vs \<noteq> [] \<and> int (length vs) \<le> l \<and> last vs AND bv (TWINT T) \<noteq> 0)"
proof (induction T l h arbitrary: l' h' rule: waitInt_loop.induct)
  case (1 T l h)
  obtain cr h1 where rd: "rd_TWCR T h = (cr, h1)"
    by (cases "rd_TWCR T h")
  note tr = trace_rd(1) [OF rd]
  show ?case
  proof (cases "cr AND bv (TWINT T) = 0")
    case clear: True
    show ?thesis
    proof (cases "l > 0")
      case True
      with clear rd "1.prems" have "waitInt_loop T (l - 1) h1 = (l', h')"
        by (simp add: waitInt_loop.simps [of T l h])
      from "1.IH" [OF rd [symmetric] clear True this]
      obtain vs where vs: "trace h' = trace h1 @ map RdTWCR vs"
        "0 < l' \<longrightarrow> vs \<noteq> [] \<and> int (length vs) \<le> l - 1 \<and> last vs AND bv (TWINT T) \<noteq> 0"
        by blast
      show ?thesis
        by (rule exI [of _ "cr # vs"]) (use vs tr in auto)
    next
      case False
      with clear rd "1.prems" have "l' = l - 1" "h' = h1"
        by (simp_all add: waitInt_loop.simps [of T l h])
      with False tr show ?thesis
        by (intro exI [of _ "[cr]"]) simp
    qed
  next
    case False
    with rd "1.prems" have "l' = l" "h' = h1"
      by (simp_all add: waitInt_loop.simps [of T l h])
    with False tr show ?thesis
      by (intro exI [of _ "[cr]"]) auto
  qed
qed

lemma waitInt_trace:
  assumes "Fastwire_waitInt T h = (ok, h')"
  obtains vs where "trace h' = trace h @ map RdTWCR vs"
    and "ok = 0 \<or> ok = 1"
    and "ok \<noteq> 0 \<Longrightarrow> \<exists>v \<in> set (take 250 vs). v AND bv (TWINT T) \<noteq> 0"
proof -
  obtain l' where w: "waitInt_loop T 250 h = (l', h')" and ok: "ok = (if l' > 0 then 1 else 0)"
    using assms by (auto simp: Fastwire_waitInt_def split: prod.splits)
  from waitInt_loop_trace [OF w] obtain vs where vs: "trace h' = trace h @ map RdTWCR vs"
    "0 < l' \<longrightarrow> vs \<noteq> [] \<and> int (length vs) \<le> 250 \<and> last vs AND bv (TWINT T) \<noteq> 0"
    by blast
  show thesis
  proof (rule that [OF vs(1)])
    show "ok = 0 \<or> ok = 1" using ok by simp
  next
    assume "ok \<noteq> 0"
    with ok have "0 < l'" by (simp split: if_splits)
    with vs(2) have "vs \<noteq> []" "length vs \<le> 250" "last vs AND bv (TWINT T) \<noteq> 0"
      by auto
    then show "\<exists>v \<in> set (take 250 vs). v AND bv (TWINT T) \<noteq> 0"
      by (intro bexI [of _ "last vs"]) simp_all
  qed
qed

lemma stop_trace:
  assumes "Fastwire_stop T h = (r, h')"
  obtains vs where "trace h' = trace h @ WrTWCR (cmd_STOP T) # map RdTWCR vs"
proof -
  obtain ok where w: "Fastwire_waitInt T (wr_TWCR T (cmd_STOP T) h) = (ok, h')"
    using assms by (auto simp: Fastwire_stop_def Let_def split: prod.splits if_splits)
  from waitInt_trace [OF w] obtain vs
    where "trace h' = trace (wr_TWCR T (cmd_STOP T) h) @ map RdTWCR vs" by metis
  then show thesis by (intro that [of vs]) simp
qed

lemma write_trace:
  assumes "Fastwire_write T v h = (r, h')"
  obtains (timeout) vs where "r = 1"
      "trace h' = trace h @ WrTWDR v # WrTWCR (cmd_GO T) # map RdTWCR vs"
  | (status) vs sr where "r = (if sr AND 0xF8 \<noteq> TW_MT_DATA_ACK then 2 else 0)"
      "trace h' = trace h @ WrTWDR v # WrTWCR (cmd_GO T) # map RdTWCR vs @ [RdTWSR sr]"
proof -
  let ?h2 = "wr_TWCR T (cmd_GO T) (wr_TWDR T v h)"
  obtain ok h3 where w: "Fastwire_waitInt T ?h2 = (ok, h3)"
    by (cases "Fastwire_waitInt T ?h2")
  from waitInt_trace [OF w] obtain vs where vs: "trace h3 = trace ?h2 @ map RdTWCR vs"
    by metis
  show thesis
  proof (cases "ok = 0")
    case True
    with w assms have r: "r = 1" and h': "h' = h3"
      by (auto simp: Fastwire_write_def Let_def split: if_splits)
    have "trace h' = trace h @ WrTWDR v # WrTWCR (cmd_GO T) # map RdTWCR vs"
      using vs h' by simp
    from timeout [OF r this] show thesis .
  next
    case False
    obtain sr h4 where rd: "rd_TWSR T h3 = (sr, h4)"
      by (cases "rd_TWSR T h3")
    with False w assms have r: "r = (if sr AND 0xF8 \<noteq> TW_MT_DATA_ACK then 2 else 0)"
      and h': "h' = h4"
      by (auto simp: Fastwire_write_def Let_def split: if_splits)
    have "trace h' = trace h @ WrTWDR v # WrTWCR (cmd_GO T) # map RdTWCR vs @ [RdTWSR sr]"
      using vs trace_rd(2) [OF rd] h' by simp
    from status [OF r this] show thesis .
  qed
qed

lemma addr_loop_cases:
  assumes "addr_loop T e1 e2 e3 sla nack retry h = (res, h')"
  obtains
    (timeout1) vs where "res = Inl e1"
      "trace h' = trace h @ WrTWCR (cmd_START T) # map RdTWCR vs"
  | (badstart) vs sr where "res = Inl e2"
      "trace h' = trace h @ WrTWCR (cmd_START T) # map RdTWCR vs @ [RdTWSR sr]"
      "\<exists>v \<in> set (take 250 vs). v AND bv (TWINT T) \<noteq> 0"
      "sr AND 0xF8 \<noteq> TW_START" "sr AND 0xF8 \<noteq> TW_REP_START"
  | (timeout2) vs sr vs' where "res = Inl e3"
      "trace h' = trace h @ WrTWCR (cmd_START T) # map RdTWCR vs
         @ [RdTWSR sr, WrTWDR sla, WrTWCR (cmd_GO T)] @ map RdTWCR vs'"
      "\<exists>v \<in> set (take 250 vs). v AND bv (TWINT T) \<noteq> 0"
  | (exit) vs sr vs' sr' where "res = Inr (sr' AND 0xF8)"
      "trace h' = trace h @ WrTWCR (cmd_START T) # map RdTWCR vs
         @ [RdTWSR sr, WrTWDR sla, WrTWCR (cmd_GO T)] @ map RdTWCR vs' @ [RdTWSR sr']"
      "\<exists>v \<in> set (take 250 vs). v AND bv (TWINT T) \<noteq> 0"
      "sr' AND 0xF8 \<noteq> nack \<or> retry = 0"
      "sr AND 0xF8 = TW_START \<or> sr AND 0xF8 = TW_REP_START"
  | (again) vs sr vs' sr' h7 where "sr' AND 0xF8 = nack" "0 < retry"
      "trace h7 = trace h @ WrTWCR (cmd_START T) # map RdTWCR vs
         @ [RdTWSR sr, WrTWDR sla, WrTWCR (cmd_GO T)] @ map RdTWCR vs' @ [RdTWSR sr']"
      "\<exists>v \<in> set (take 250 vs). v AND bv (TWINT T) \<noteq> 0"
      "addr_loop T e1 e2 e3 sla nack (retry - 1) h7 = (res, h')"
      "sr AND 0xF8 = TW_START \<or> sr AND 0xF8 = TW_REP_START"
proof -
  let ?h1 = "wr_TWCR T (cmd_START T) h"
  obtain ok h2 where w1: "Fastwire_waitInt T ?h1 = (ok, h2)"
    by (cases "Fastwire_waitInt T ?h1")
  from waitInt_trace [OF w1] obtain vs where vs: "trace h2 = trace ?h1 @ map RdTWCR vs"
    and vs_ok: "ok \<noteq> 0 \<Longrightarrow> \<exists>v \<in> set (take 250 vs). v AND bv (TWINT T) \<noteq> 0"
    by metis
  note unfold = addr_loop.simps [of T e1 e2 e3 sla nack retry h]
  show thesis
  proof (cases "ok = 0")
    case True
    with w1 assms have res: "res = Inl e1" and h': "h' = h2"
      by (auto simp: unfold Let_def split: if_splits)
    have "trace h' = trace h @ WrTWCR (cmd_START T) # map RdTWCR vs"
      using vs h' by simp
    from timeout1 [OF res this] show thesis .
  next
    case ok: False
    note seen = vs_ok [OF ok]
    obtain sr h3 where rd1: "rd_TWSR T h2 = (sr, h3)"
      by (cases "rd_TWSR T h2")
    note t3 = trace_rd(2) [OF rd1]
    show thesis
    proof (cases "sr AND 0xF8 \<noteq> TW_START \<and> sr AND 0xF8 \<noteq> TW_REP_START")
      case True
      with ok w1 rd1 assms have res: "res = Inl e2" and h': "h' = h3"
        by (auto simp: unfold Let_def split: if_splits)
      have "trace h' = trace h @ WrTWCR (cmd_START T) # map RdTWCR vs @ [RdTWSR sr]"
        using vs t3 h' by simp
      from badstart [OF res this seen] True show thesis by blast
    next
      case start: False
      then have started: "sr AND 0xF8 = TW_START \<or> sr AND 0xF8 = TW_REP_START"
        by blast
      let ?h5 = "wr_TWCR T (cmd_GO T) (wr_TWDR T sla h3)"
      obtain ok' h6 where w2: "Fastwire_waitInt T ?h5 = (ok', h6)"
        by (cases "Fastwire_waitInt T ?h5")
      from waitInt_trace [OF w2] obtain vs'
        where vs': "trace h6 = trace ?h5 @ map RdTWCR vs'"
        by metis
      show thesis
      proof (cases "ok' = 0")
        case True
        with ok start w1 rd1 w2 assms have res: "res = Inl e3" and h': "h' = h6"
          by (auto simp: unfold Let_def split: if_splits)
        have "trace h' = trace h @ WrTWCR (cmd_START T) # map RdTWCR vs
           @ [RdTWSR sr, WrTWDR sla, WrTWCR (cmd_GO T)] @ map RdTWCR vs'"
          using vs t3 vs' h' by simp
        from timeout2 [OF res this seen] show thesis .
      next
        case ok': False
        obtain sr' h7 where rd2: "rd_TWSR T h6 = (sr', h7)"
          by (cases "rd_TWSR T h6")
        note t7 = trace_rd(2) [OF rd2]
        have tr7: "trace h7 = trace h @ WrTWCR (cmd_START T) # map RdTWCR vs
           @ [RdTWSR sr, WrTWDR sla, WrTWCR (cmd_GO T)] @ map RdTWCR vs' @ [RdTWSR sr']"
          using vs t3 vs' t7 by simp
        show thesis
        proof (cases "sr' AND 0xF8 = nack \<and> retry > 0")
          case True
          with ok start ok' w1 rd1 w2 rd2 assms
          have loop: "addr_loop T e1 e2 e3 sla nack (retry - 1) h7 = (res, h')"
            by (auto simp: unfold Let_def split: if_splits)
          from True have "sr' AND 0xF8 = nack" "0 < retry" by simp_all
          from again [OF this tr7 seen loop started] show thesis .
        next
          case False
          with ok start ok' w1 rd1 w2 rd2 assms
          have res: "res = Inr (sr' AND 0xF8)" and h': "h' = h7"
            by (auto simp: unfold Let_def split: if_splits)
          from False have "sr' AND 0xF8 \<noteq> nack \<or> retry = 0"
            by (auto simp: word_gt_0)
          from exit [OF res tr7 [folded h'] seen this started] show thesis .
        qed
      qed
    qed
  qed
qed

lemma addr_loop_trace:
  "addr_loop T e1 e2 e3 sla nack retry h = (res, h') \<Longrightarrow>
     \<exists>vs rest. trace h' = trace h @ WrTWCR (cmd_START T) # map RdTWCR vs @ rest
        \<and> twdr_reads rest = []
        \<and> set (twdr_writes rest) \<subseteq> {sla}
        \<and> ((\<forall>v \<in> set (take 250 vs). v AND bv (TWINT T) = 0) \<longrightarrow> res = Inl e1 \<and> rest = [])"
proof (induction n \<equiv> "unat retry" arbitrary: retry h)
  case 0
  from "0.prems" show ?case
  proof (cases rule: addr_loop_cases)
    case (timeout1 vs)
    then show ?thesis
      by (intro exI [of _ vs] exI [of _ "[]"]) simp
  next
    case (badstart vs sr)
    then show ?thesis
      by (intro exI [of _ vs] exI [of _ "[RdTWSR sr]"]) auto
  next
    case (timeout2 vs sr vs')
    then show ?thesis
      by (intro exI [of _ vs]
          exI [of _ "[RdTWSR sr, WrTWDR sla, WrTWCR (cmd_GO T)] @ map RdTWCR vs'"]) auto
  next
    case (exit vs sr vs' sr')
    then show ?thesis
      by (intro exI [of _ vs]
          exI [of _ "[RdTWSR sr, WrTWDR sla, WrTWCR (cmd_GO T)] @ map RdTWCR vs' @ [RdTWSR sr']"])
        auto
  next
    case again
    from again(2) "0.hyps" show ?thesis by (simp add: word_less_nat_alt)
  qed
next
  case (Suc n)
  from Suc.prems show ?case
  proof (cases rule: addr_loop_cases)
    case (timeout1 vs)
    then show ?thesis
      by (intro exI [of _ vs] exI [of _ "[]"]) simp
  next
    case (badstart vs sr)
    then show ?thesis
      by (intro exI [of _ vs] exI [of _ "[RdTWSR sr]"]) auto
  next
    case (timeout2 vs sr vs')
    then show ?thesis
      by (intro exI [of _ vs]
          exI [of _ "[RdTWSR sr, WrTWDR sla, WrTWCR (cmd_GO T)] @ map RdTWCR vs'"]) auto
  next
    case (exit vs sr vs' sr')
    then show ?thesis
      by (intro exI [of _ vs]
          exI [of _ "[RdTWSR sr, WrTWDR sla, WrTWCR (cmd_GO T)] @ map RdTWCR vs' @ [RdTWSR sr']"])
        auto
  next
    case (again vs sr vs' sr' h7)
    from again(2) Suc(2) have "n = unat (retry - 1)"
      by (simp add: unat_minus_one word_gt_0)
    from Suc(1) [OF this again(5)] obtain ws rest
      where "trace h' = trace h7 @ WrTWCR (cmd_START T) # map RdTWCR ws @ rest"
        "twdr_reads rest = []" "set (twdr_writes rest) \<subseteq> {sla}"
      by blast
    with again(3,4) show ?thesis
      by (intro exI [of _ vs]
          exI [of _ "[RdTWSR sr, WrTWDR sla, WrTWCR (cmd_GO T)] @ map RdTWCR vs' @ [RdTWSR sr']
             @ WrTWCR (cmd_START T) # map RdTWCR ws @ rest"]) auto
  qed
qed

lemma addr_loop_extends:
  "addr_loop T e1 e2 e3 sla nack retry h = (res, h') \<Longrightarrow> extends h h'"
  using addr_loop_trace [of T e1 e2 e3 sla nack retry h res h']
  by (auto simp: extends_def)

text \<open>Address phases that all end in the NACK: one more than \<open>retry\<close> of them end the loop.\<close>

lemma addr_loop_nacks:
  assumes "addr_loop T e1 e2 e3 sla nack retry h = (res, h')"
    and "length starts = Suc (unat retry)"
    and "statuses (run_events h h') @ later = concat (map (\<lambda>s. [s, nack]) starts) @ rest"
  shows "(\<exists>e. res = Inl e \<and> later \<noteq> []) \<or> (res = Inr nack \<and> later = rest)"
  using assms
proof (induction starts arbitrary: retry h)
  case Nil
  then show ?case by simp
next
  case (Cons s0 ss)
  from Cons.prems(1) show ?case
  proof (cases rule: addr_loop_cases)
    case (timeout1 vs)
    from run_events_eq [OF timeout1(2)] Cons.prems(3) timeout1(1) show ?thesis
      by auto
  next
    case (badstart vs sr)
    from run_events_eq [OF badstart(2)] Cons.prems(3) badstart(1) show ?thesis
      by auto
  next
    case (timeout2 vs sr vs')
    from run_events_eq [OF timeout2(2)] Cons.prems(3) timeout2(1) show ?thesis
      by auto
  next
    case (exit vs sr vs' sr')
    from run_events_eq [OF exit(2)] Cons.prems(3)
    have "sr' AND 0xF8 = nack" "later = concat (map (\<lambda>s. [s, nack]) ss) @ rest"
      by auto
    with exit(1,4) Cons.prems(2) show ?thesis
      by auto
  next
    case (again vs sr vs' sr' h7)
    have e1: "extends h h7"
      using again(3) by (auto simp: extends_def)
    have e2: "extends h7 h'"
      by (rule addr_loop_extends [OF again(5)])
    have "statuses (run_events h h') = [sr AND 0xF8, nack] @ statuses (run_events h7 h')"
      using run_events_eq [OF again(3)] again(1)
      by (simp add: run_events_trans [OF e1 e2])
    with Cons.prems(3)
    have eq: "statuses (run_events h7 h') @ later = concat (map (\<lambda>s. [s, nack]) ss) @ rest"
      by simp
    from again(2) Cons.prems(2) have "length ss = Suc (unat (retry - 1))"
      by (simp add: unat_minus_one word_gt_0 unat_gt_0)
    from Cons.IH [OF again(5) this eq] show ?thesis .
  qed
qed

lemma addr_loop_Inr_last:
  "addr_loop T e1 e2 e3 sla nack retry h = (Inr t, h') \<Longrightarrow>
     \<exists>evs sr. trace h' = trace h @ evs @ [RdTWSR sr]"
proof (induction n \<equiv> "unat retry" arbitrary: retry h)
  case 0
  from "0.prems" show ?case
  proof (cases rule: addr_loop_cases)
    case (exit vs sr vs' sr')
    then show ?thesis
      by (intro exI [of _ "WrTWCR (cmd_START T) # map RdTWCR vs
             @ [RdTWSR sr, WrTWDR sla, WrTWCR (cmd_GO T)] @ map RdTWCR vs'"] exI [of _ sr']) simp
  next
    case again
    from again(2) "0.hyps" show ?thesis by (simp add: word_less_nat_alt)
  qed simp_all
next
  case (Suc n)
  from Suc.prems show ?case
  proof (cases rule: addr_loop_cases)
    case (exit vs sr vs' sr')
    then show ?thesis
      by (intro exI [of _ "WrTWCR (cmd_START T) # map RdTWCR vs
             @ [RdTWSR sr, WrTWDR sla, WrTWCR (cmd_GO T)] @ map RdTWCR vs'"] exI [of _ sr']) simp
  next
    case (again vs sr vs' sr' h7)
    from again(2) Suc(2) have "n = unat (retry - 1)"
      by (simp add: unat_minus_one word_gt_0)
    from Suc(1) [OF this again(5)] obtain evs x
      where "trace h' = trace h7 @ evs @ [RdTWSR x]"
      by blast
    with again(3) show ?thesis
      by (intro exI [of _ "WrTWCR (cmd_START T) # map RdTWCR vs
             @ [RdTWSR sr, WrTWDR sla, WrTWCR (cmd_GO T)] @ map RdTWCR vs' @ [RdTWSR sr'] @ evs"]
            exI [of _ x]) simp
  qed simp_all
qed

lemma readBuf_loop_cases:
  assumes "readBuf_loop T i num data h = (res, data', h')"
  obtains
    (finished) "\<not> i < num" "res = None" "data' = data" "h' = h"
  | (timeout) vs where "i < num" "res = Some 26" "data' = data"
      "trace h' = trace h @ WrTWCR (if i = num - 1 then cmd_GO T else cmd_GO_ACK T) # map RdTWCR vs"
  | (badstatus) vs sr where "i < num" "res = Some (sr AND 0xF8)" "data' = data"
      "trace h' = trace h @ WrTWCR (if i = num - 1 then cmd_GO T else cmd_GO_ACK T)
         # map RdTWCR vs @ [RdTWSR sr]"
      "sr AND 0xF8 \<noteq> TW_MR_DATA_ACK" "sr AND 0xF8 \<noteq> TW_MR_DATA_NACK"
  | (stored) vs sr v h4 where "i < num"
      "trace h4 = trace h @ WrTWCR (if i = num - 1 then cmd_GO T else cmd_GO_ACK T)
         # map RdTWCR vs @ [RdTWSR sr, RdTWDR v]"
      "sr AND 0xF8 = TW_MR_DATA_ACK \<or> sr AND 0xF8 = TW_MR_DATA_NACK"
      "readBuf_loop T (i + 1) num (data(i := v)) h4 = (res, data', h')"
proof (cases "i < num")
  case False
  with assms have "res = None" "data' = data" "h' = h"
    by (simp_all add: readBuf_loop.simps [of T i num data h])
  from finished [OF False this] show thesis .
next
  case less: True
  let ?c = "if i = num - 1 then cmd_GO T else cmd_GO_ACK T"
  let ?h1 = "wr_TWCR T ?c h"
  note unfold = readBuf_loop.simps [of T i num data h]
  have h1: "(if i = num - 1 then wr_TWCR T (cmd_GO T) h else wr_TWCR T (cmd_GO_ACK T) h) = ?h1"
    by simp
  obtain ok h2 where w: "Fastwire_waitInt T ?h1 = (ok, h2)"
    by (cases "Fastwire_waitInt T ?h1")
  from waitInt_trace [OF w] obtain vs where vs: "trace h2 = trace ?h1 @ map RdTWCR vs"
    by metis
  show thesis
  proof (cases "ok = 0")
    case True
    with less w assms have r: "res = Some 26" "data' = data" and h': "h' = h2"
      unfolding unfold Let_def h1 by auto
    have "trace h' = trace h @ WrTWCR ?c # map RdTWCR vs"
      using vs h' by simp
    from timeout [OF less r this] show thesis .
  next
    case ok: False
    obtain sr h3 where rd: "rd_TWSR T h2 = (sr, h3)"
      by (cases "rd_TWSR T h2")
    have t3: "trace h3 = trace h @ WrTWCR ?c # map RdTWCR vs @ [RdTWSR sr]"
      using vs trace_rd(2) [OF rd] by simp
    show thesis
    proof (cases "sr AND 0xF8 \<noteq> TW_MR_DATA_ACK \<and> sr AND 0xF8 \<noteq> TW_MR_DATA_NACK")
      case True
      with less ok w rd assms have r: "res = Some (sr AND 0xF8)" "data' = data" and h': "h' = h3"
        unfolding unfold Let_def h1 by auto
      from badstatus [OF less r t3 [folded h']] True show thesis by blast
    next
      case False
      obtain v h4 where rdd: "rd_TWDR T h3 = (v, h4)"
        by (cases "rd_TWDR T h3")
      have t4: "trace h4 = trace h @ WrTWCR ?c # map RdTWCR vs @ [RdTWSR sr, RdTWDR v]"
        using t3 trace_rd(3) [OF rdd] by simp
      from False less ok w rd rdd assms
      have loop: "readBuf_loop T (i + 1) num (data(i := v)) h4 = (res, data', h')"
        unfolding unfold Let_def h1 by auto
      from False have "sr AND 0xF8 = TW_MR_DATA_ACK \<or> sr AND 0xF8 = TW_MR_DATA_NACK"
        by blast
      from stored [OF less t4 this loop] show thesis .
    qed
  qed
qed

lemma readBuf_loop_extends:
  "readBuf_loop T i num data h = (res, data', h') \<Longrightarrow> extends h h'"
proof (induction n \<equiv> "num - i" arbitrary: i data h)
  case 0
  from "0.prems" show ?case
  proof (cases rule: readBuf_loop_cases)
    case (stored vs sr v h4)
    with 0 show ?thesis by simp
  qed (use 0 in \<open>auto simp: extends_def\<close>)
next
  case (Suc n)
  from Suc.prems show ?case
  proof (cases rule: readBuf_loop_cases)
    case (stored vs sr v h4)
    from stored(1) Suc(2) have "n = num - (i + 1)" by simp
    from Suc(1) [OF this stored(4)] have "extends h4 h'" .
    moreover have "extends h h4" using stored(2) by (auto simp: extends_def)
    ultimately show ?thesis by (rule extends_trans [rotated])
  qed (auto simp: extends_def)
qed

lemma readBuf_phases:
  assumes "Fastwire_readBuf T device address data num h = (r, data', h')"
  obtains
    (addr_w_failed) e where
      "addr_loop T 16 17 18 (device AND 0xFE) TW_MT_SLA_NACK 2 h = (Inl e, h')"
      "r = e" "data' = data"
  | (addr_w_refused) t where
      "addr_loop T 16 17 18 (device AND 0xFE) TW_MT_SLA_NACK 2 h = (Inr t, h')"
      "t \<noteq> TW_MT_SLA_ACK" "r = 19" "data' = data"
  | (reg_timeout) h1 vs where
      "addr_loop T 16 17 18 (device AND 0xFE) TW_MT_SLA_NACK 2 h = (Inr TW_MT_SLA_ACK, h1)"
      "trace h' = trace h1 @ WrTWDR address # WrTWCR (cmd_GO T) # map RdTWCR vs"
      "r = 20" "data' = data"
  | (reg_refused) h1 vs sr where
      "addr_loop T 16 17 18 (device AND 0xFE) TW_MT_SLA_NACK 2 h = (Inr TW_MT_SLA_ACK, h1)"
      "trace h' = trace h1 @ WrTWDR address # WrTWCR (cmd_GO T) # map RdTWCR vs @ [RdTWSR sr]"
      "sr AND 0xF8 \<noteq> TW_MT_DATA_ACK" "r = 21" "data' = data"
  | (addr_r_failed) h1 vs sr h5 e where
      "addr_loop T 16 17 18 (device AND 0xFE) TW_MT_SLA_NACK 2 h = (Inr TW_MT_SLA_ACK, h1)"
      "trace h5 = trace h1 @ WrTWDR address # WrTWCR (cmd_GO T) # map RdTWCR vs @ [RdTWSR sr]"
      "sr AND 0xF8 = TW_MT_DATA_ACK"
      "addr_loop T 22 23 24 (device OR 0x01) TW_MR_SLA_NACK 2 h5 = (Inl e, h')"
      "r = e" "data' = data"
  | (addr_r_refused) h1 vs sr h5 t where
      "addr_loop T 16 17 18 (device AND 0xFE) TW_MT_SLA_NACK 2 h = (Inr TW_MT_SLA_ACK, h1)"
      "trace h5 = trace h1 @ WrTWDR address # WrTWCR (cmd_GO T) # map RdTWCR vs @ [RdTWSR sr]"
      "sr AND 0xF8 = TW_MT_DATA_ACK"
      "addr_loop T 22 23 24 (device OR 0x01) TW_MR_SLA_NACK 2 h5 = (Inr t, h')"
      "t \<noteq> TW_MR_SLA_ACK" "r = 25" "data' = data"
  | (data_failed) h1 vs sr h5 h6 e where
      "addr_loop T 16 17 18 (device AND 0xFE) TW_MT_SLA_NACK 2 h = (Inr TW_MT_SLA_ACK, h1)"
      "trace h5 = trace h1 @ WrTWDR address # WrTWCR (cmd_GO T) # map RdTWCR vs @ [RdTWSR sr]"
      "sr AND 0xF8 = TW_MT_DATA_ACK"
      "addr_loop T 22 23 24 (device OR 0x01) TW_MR_SLA_NACK 2 h5 = (Inr TW_MR_SLA_ACK, h6)"
      "readBuf_loop T 0 (unat num) data h6 = (Some e, data', h')" "r = e"
  | (data_done) h1 vs sr h5 h6 h7 ws where
      "addr_loop T 16 17 18 (device AND 0xFE) TW_MT_SLA_NACK 2 h = (Inr TW_MT_SLA_ACK, h1)"
      "trace h5 = trace h1 @ WrTWDR address # WrTWCR (cmd_GO T) # map RdTWCR vs @ [RdTWSR sr]"
      "sr AND 0xF8 = TW_MT_DATA_ACK"
      "addr_loop T 22 23 24 (device OR 0x01) TW_MR_SLA_NACK 2 h5 = (Inr TW_MR_SLA_ACK, h6)"
      "readBuf_loop T 0 (unat num) data h6 = (None, data', h7)"
      "trace h' = trace h7 @ WrTWCR (cmd_STOP T) # map RdTWCR ws" "r = 0"
proof -
  note unfold = Fastwire_readBuf_def [of T device address data num h]
  obtain res1 h1 where a1: "addr_loop T 16 17 18 (device AND 0xFE) TW_MT_SLA_NACK 2 h = (res1, h1)"
    by (cases "addr_loop T 16 17 18 (device AND 0xFE) TW_MT_SLA_NACK 2 h")
  show thesis
  proof (cases res1)
    case (Inl e)
    with a1 assms have "r = e" "data' = data" "h' = h1"
      unfolding unfold by simp_all
    with a1 Inl addr_w_failed show thesis by blast
  next
    case (Inr t)
    show thesis
    proof (cases "t = TW_MT_SLA_ACK")
      case False
      with a1 Inr assms have "r = 19" "data' = data" "h' = h1"
        unfolding unfold by simp_all
      with a1 Inr False addr_w_refused show thesis by blast
    next
      case ack: True
      note a1' = a1 [unfolded Inr ack]
      let ?h3 = "wr_TWCR T (cmd_GO T) (wr_TWDR T address h1)"
      obtain ok h4 where w: "Fastwire_waitInt T ?h3 = (ok, h4)"
        by (cases "Fastwire_waitInt T ?h3")
      from waitInt_trace [OF w] obtain vs where vs: "trace h4 = trace ?h3 @ map RdTWCR vs"
        by metis
      show thesis
      proof (cases "ok = 0")
        case True
        with a1' w assms have r: "r = 20" "data' = data" and h': "h' = h4"
          unfolding unfold Let_def by simp_all
        have "trace h' = trace h1 @ WrTWDR address # WrTWCR (cmd_GO T) # map RdTWCR vs"
          using vs h' by simp
        from reg_timeout [OF a1' this r] show thesis .
      next
        case ok: False
        obtain sr h5 where rd: "rd_TWSR T h4 = (sr, h5)"
          by (cases "rd_TWSR T h4")
        have t5: "trace h5 = trace h1 @ WrTWDR address # WrTWCR (cmd_GO T) # map RdTWCR vs
            @ [RdTWSR sr]"
          using vs trace_rd(2) [OF rd] by simp
        show thesis
        proof (cases "sr AND 0xF8 = TW_MT_DATA_ACK")
          case False
          with a1' w ok rd assms have r: "r = 21" "data' = data" and h': "h' = h5"
            unfolding unfold Let_def by simp_all
          from reg_refused [OF a1' t5 [folded h'] False r] show thesis .
        next
          case dack: True
          obtain res2 h6
            where a2: "addr_loop T 22 23 24 (device OR 0x01) TW_MR_SLA_NACK 2 h5 = (res2, h6)"
            by (cases "addr_loop T 22 23 24 (device OR 0x01) TW_MR_SLA_NACK 2 h5")
          show thesis
          proof (cases res2)
            case (Inl e)
            with a1' w ok rd dack a2 assms have r: "r = e" "data' = data" and h': "h' = h6"
              unfolding unfold Let_def by simp_all
            from addr_r_failed [OF a1' t5 dack a2 [unfolded Inl, folded h'] r] show thesis .
          next
            case (Inr t')
            show thesis
            proof (cases "t' = TW_MR_SLA_ACK")
              case False
              with a1' w ok rd dack a2 Inr assms
              have r: "r = 25" "data' = data" and h': "h' = h6"
                unfolding unfold Let_def by simp_all
              from addr_r_refused [OF a1' t5 dack a2 [unfolded Inr, folded h'] False r]
              show thesis .
            next
              case rack: True
              note a2' = a2 [unfolded Inr rack]
              obtain res3 d3 h7
                where l: "readBuf_loop T 0 (unat num) data h6 = (res3, d3, h7)"
                by (cases "readBuf_loop T 0 (unat num) data h6")
              show thesis
              proof (cases res3)
                case (Some e)
                with a1' w ok rd dack a2' l assms
                have r: "r = e" and d: "data' = d3" and h': "h' = h7"
                  unfolding unfold Let_def by simp_all
                from data_failed [OF a1' t5 dack a2' l [unfolded Some, folded d h'] r]
                show thesis .
              next
                case None
                with a1' w ok rd dack a2' l assms
                have r: "r = 0" and d: "data' = d3" and h': "h' = snd (Fastwire_stop T h7)"
                  unfolding unfold Let_def by simp_all
                obtain rs where st: "Fastwire_stop T h7 = (rs, h')"
                  using h' by (cases "Fastwire_stop T h7") simp
                from stop_trace [OF st] obtain ws
                  where "trace h' = trace h7 @ WrTWCR (cmd_STOP T) # map RdTWCR ws" .
                from data_done [OF a1' t5 dack a2' l [unfolded None, folded d] this r]
                show thesis .
              qed
            qed
          qed
        qed
      qed
    qed
  qed
qed

lemma addr_loop_alphabet:
  "addr_loop T e1 e2 e3 sla nack retry h = (res, h') \<Longrightarrow>
     \<exists>ss tail. statuses (run_events h h') = ss @ tail
        \<and> set ss \<subseteq> {TW_START, TW_REP_START, nack}
        \<and> (case res of Inl e \<Rightarrow> length tail \<le> 1 | Inr t \<Rightarrow> tail = [t])"
proof (induction n \<equiv> "unat retry" arbitrary: retry h)
  case 0
  from "0.prems" show ?case
  proof (cases rule: addr_loop_cases)
    case (timeout1 vs)
    from run_events_eq [OF timeout1(2)] timeout1(1) show ?thesis
      by (intro exI [of _ "[]"] exI [of _ "[]"]) simp
  next
    case (badstart vs sr)
    from run_events_eq [OF badstart(2)] badstart(1) show ?thesis
      by (intro exI [of _ "[]"] exI [of _ "[sr AND 0xF8]"]) simp
  next
    case (timeout2 vs sr vs')
    from run_events_eq [OF timeout2(2)] timeout2(1) show ?thesis
      by (intro exI [of _ "[]"] exI [of _ "[sr AND 0xF8]"]) simp
  next
    case (exit vs sr vs' sr')
    from run_events_eq [OF exit(2)] exit(1,5) show ?thesis
      by (intro exI [of _ "[sr AND 0xF8]"] exI [of _ "[sr' AND 0xF8]"]) auto
  next
    case again
    from again(2) "0.hyps" show ?thesis by (simp add: word_less_nat_alt)
  qed
next
  case (Suc n)
  from Suc.prems show ?case
  proof (cases rule: addr_loop_cases)
    case (timeout1 vs)
    from run_events_eq [OF timeout1(2)] timeout1(1) show ?thesis
      by (intro exI [of _ "[]"] exI [of _ "[]"]) simp
  next
    case (badstart vs sr)
    from run_events_eq [OF badstart(2)] badstart(1) show ?thesis
      by (intro exI [of _ "[]"] exI [of _ "[sr AND 0xF8]"]) simp
  next
    case (timeout2 vs sr vs')
    from run_events_eq [OF timeout2(2)] timeout2(1) show ?thesis
      by (intro exI [of _ "[]"] exI [of _ "[sr AND 0xF8]"]) simp
  next
    case (exit vs sr vs' sr')
    from run_events_eq [OF exit(2)] exit(1,5) show ?thesis
      by (intro exI [of _ "[sr AND 0xF8]"] exI [of _ "[sr' AND 0xF8]"]) auto
  next
    case (again vs sr vs' sr' h7)
    from again(2) Suc(2) have "n = unat (retry - 1)"
      by (simp add: unat_minus_one word_gt_0)
    from Suc(1) [OF this again(5)] obtain ss tail
      where IH: "statuses (run_events h7 h') = ss @ tail"
        "set ss \<subseteq> {TW_START, TW_REP_START, nack}"
        "case res of Inl e \<Rightarrow> length tail \<le> 1 | Inr t \<Rightarrow> tail = [t]"
      by blast
    have e1: "extends h h7"
      using again(3) by (auto simp: extends_def)
    have e2: "extends h7 h'"
      by (rule addr_loop_extends [OF again(5)])
    have "statuses (run_events h h') = ([sr AND 0xF8, nack] @ ss) @ tail"
      using run_events_eq [OF again(3)] again(1) IH(1)
      by (simp add: run_events_trans [OF e1 e2])
    with IH(2,3) again(6) show ?thesis
      by (intro exI [of _ "[sr AND 0xF8, nack] @ ss"] exI [of _ tail]) auto
  qed
qed

lemma first_occurrence_last:
  assumes "pre @ x # post = ss @ tail" "x \<notin> set ss" "length tail \<le> 1"
  shows "post = []"
proof -
  from assms(1) have "length pre < length ss \<or> length ss \<le> length pre" by linarith
  then show ?thesis
  proof
    assume "length pre < length ss"
    with assms(1) have "ss ! length pre = x"
      by (metis nth_append nth_append_length)
    with \<open>length pre < length ss\<close> assms(2) show ?thesis
      using nth_mem by blast
  next
    assume "length ss \<le> length pre"
    moreover have "length (pre @ x # post) = length (ss @ tail)"
      using assms(1) by simp
    ultimately show ?thesis
      using assms(3) by (cases post) auto
  qed
qed

lemma first_occurrence_unique:
  assumes "xs @ x # ys = xs' @ x # ys'" "x \<notin> set xs" "x \<notin> set xs'"
  shows "xs = xs' \<and> ys = ys'"
  using assms
proof (induction xs arbitrary: xs')
  case Nil
  then show ?case by (cases xs') auto
next
  case (Cons a as)
  then show ?case by (cases xs') auto
qed

lemma readBuf_extends:
  assumes "Fastwire_readBuf T device address data num h = (r, data', h')"
  shows "extends h h'"
  using assms
proof (cases rule: readBuf_phases)
  case (addr_w_failed e)
  then show ?thesis by (simp add: addr_loop_extends)
next
  case (addr_w_refused t)
  then show ?thesis by (simp add: addr_loop_extends)
next
  case (reg_timeout h1 vs)
  from addr_loop_extends [OF reg_timeout(1)] reg_timeout(2) show ?thesis
    by (auto simp: extends_def)
next
  case (reg_refused h1 vs sr)
  from addr_loop_extends [OF reg_refused(1)] reg_refused(2) show ?thesis
    by (auto simp: extends_def)
next
  case (addr_r_failed h1 vs sr h5 e)
  from addr_loop_extends [OF addr_r_failed(1)] addr_r_failed(2)
    addr_loop_extends [OF addr_r_failed(4)] show ?thesis
    by (auto simp: extends_def)
next
  case (addr_r_refused h1 vs sr h5 t)
  from addr_loop_extends [OF addr_r_refused(1)] addr_r_refused(2)
    addr_loop_extends [OF addr_r_refused(4)] show ?thesis
    by (auto simp: extends_def)
next
  case (data_failed h1 vs sr h5 h6 e)
  from addr_loop_extends [OF data_failed(1)] data_failed(2)
    addr_loop_extends [OF data_failed(4)] readBuf_loop_extends [OF data_failed(5)]
  show ?thesis
    by (auto simp: extends_def)
next
  case (data_done h1 vs sr h5 h6 h7 ws)
  from addr_loop_extends [OF data_done(1)] data_done(2)
    addr_loop_extends [OF data_done(4)] readBuf_loop_extends [OF data_done(5)] data_done(6)
  show ?thesis
    by (auto simp: extends_def)
qed

text \<open>What follows the first address phase of a read.\<close>

lemma readBuf_after_addr_w:
  assumes "Fastwire_readBuf T device address data num h = (r, data', h')"
  obtains res h1 where
    "addr_loop T 16 17 18 (device AND 0xFE) TW_MT_SLA_NACK 2 h = (res, h1)"
    "extends h1 h'"
    "res \<noteq> Inr TW_MT_SLA_ACK \<longrightarrow>
       h' = h1 \<and> data' = data \<and> (\<forall>t. res = Inr t \<longrightarrow> r = 19) \<and> (\<forall>e. res = Inl e \<longrightarrow> r = e)"
  using assms
proof (cases rule: readBuf_phases)
  case (addr_w_failed e)
  with that [of "Inl e" h'] show ?thesis by simp
next
  case (addr_w_refused t)
  with that [of "Inr t" h'] show ?thesis by simp
next
  case (reg_timeout h1 vs)
  with that [of "Inr TW_MT_SLA_ACK" h1] show ?thesis
    by (auto simp: extends_def)
next
  case (reg_refused h1 vs sr)
  with that [of "Inr TW_MT_SLA_ACK" h1] show ?thesis
    by (auto simp: extends_def)
next
  case (addr_r_failed h1 vs sr h5 e)
  from addr_r_failed(2) addr_loop_extends [OF addr_r_failed(4)] have "extends h1 h'"
    by (auto simp: extends_def)
  with addr_r_failed(1) that [of "Inr TW_MT_SLA_ACK" h1] show ?thesis by simp
next
  case (addr_r_refused h1 vs sr h5 t)
  from addr_r_refused(2) addr_loop_extends [OF addr_r_refused(4)] have "extends h1 h'"
    by (auto simp: extends_def)
  with addr_r_refused(1) that [of "Inr TW_MT_SLA_ACK" h1] show ?thesis by simp
next
  case (data_failed h1 vs sr h5 h6 e)
  from data_failed(2) addr_loop_extends [OF data_failed(4)]
    readBuf_loop_extends [OF data_failed(5)] have "extends h1 h'"
    by (auto simp: extends_def)
  with data_failed(1) that [of "Inr TW_MT_SLA_ACK" h1] show ?thesis by simp
next
  case (data_done h1 vs sr h5 h6 h7 ws)
  from data_done(2) addr_loop_extends [OF data_done(4)]
    readBuf_loop_extends [OF data_done(5)] data_done(6) have "extends h1 h'"
    by (auto simp: extends_def)
  with data_done(1) that [of "Inr TW_MT_SLA_ACK" h1] show ?thesis by simp
qed

lemma readBuf_write_address_nacks:
  assumes run: "Fastwire_readBuf T device address data num h = (r, data', h')"
    and nacks: "statuses (run_events h h') =
        a # TW_MT_SLA_NACK # b # TW_MT_SLA_NACK # c # TW_MT_SLA_NACK # rest"
  shows "r = 19 \<and> rest = [] \<and> data' = data \<and> twdr_reads (run_events h h') = []
     \<and> (\<exists>evs sr. run_events h h' = evs @ [RdTWSR sr])"
proof -
  from readBuf_after_addr_w [OF run] obtain res h1 where
    a: "addr_loop T 16 17 18 (device AND 0xFE) TW_MT_SLA_NACK 2 h = (res, h1)"
    and e2: "extends h1 h'"
    and stop: "res \<noteq> Inr TW_MT_SLA_ACK \<longrightarrow>
       h' = h1 \<and> data' = data \<and> (\<forall>t. res = Inr t \<longrightarrow> r = 19) \<and> (\<forall>e. res = Inl e \<longrightarrow> r = e)"
    by blast
  note e1 = addr_loop_extends [OF a]
  have "statuses (run_events h h1) @ statuses (run_events h1 h') =
      concat (map (\<lambda>s. [s, TW_MT_SLA_NACK]) [a, b, c]) @ rest"
    using nacks by (simp add: run_events_trans [OF e1 e2])
  from addr_loop_nacks [OF a _ this]
  have alt: "(\<exists>e. res = Inl e \<and> statuses (run_events h1 h') \<noteq> [])
      \<or> (res = Inr TW_MT_SLA_NACK \<and> statuses (run_events h1 h') = rest)"
    by simp
  have ne: "res \<noteq> Inr TW_MT_SLA_ACK"
    using alt by (auto simp: TW_defs)
  from stop ne have same: "h' = h1" "data' = data" and r: "\<forall>t. res = Inr t \<longrightarrow> r = 19"
    by simp_all
  from alt same(1) have res: "res = Inr TW_MT_SLA_NACK" and rest: "rest = []"
    by auto
  from addr_loop_trace [OF a] obtain vs post
    where "trace h1 = trace h @ WrTWCR (cmd_START T) # map RdTWCR vs @ post"
      "twdr_reads post = []"
    by blast
  then have reads: "twdr_reads (run_events h h') = []"
    using same(1) by (simp add: run_events_eq)
  from addr_loop_Inr_last [OF a [unfolded res]] obtain evs sr
    where "trace h1 = trace h @ evs @ [RdTWSR sr]"
    by blast
  then have "run_events h h' = evs @ [RdTWSR sr]"
    using same(1) by (simp add: run_events_eq)
  with r res rest same(2) reads show ?thesis
    by blast
qed

lemma addr_loop_twdr_reads:
  assumes "addr_loop T e1 e2 e3 sla nack retry h = (res, h')"
  shows "twdr_reads (run_events h h') = []"
proof -
  from addr_loop_trace [OF assms] obtain vs post
    where "trace h' = trace h @ WrTWCR (cmd_START T) # map RdTWCR vs @ post"
      "twdr_reads post = []"
    by blast
  then show ?thesis by (simp add: run_events_eq)
qed

lemma readBuf_read_address_nacks:
  assumes run: "Fastwire_readBuf T device address data num h = (r, data', h')"
    and nacks: "statuses (run_events h h') =
        pre @ TW_MT_DATA_ACK # a # TW_MR_SLA_NACK # b # TW_MR_SLA_NACK # c # TW_MR_SLA_NACK # rest"
    and first: "TW_MT_DATA_ACK \<notin> set pre"
  shows "r = 25 \<and> rest = [] \<and> data' = data \<and> twdr_reads (run_events h h') = []
     \<and> (\<exists>evs sr. run_events h h' = evs @ [RdTWSR sr])"
proof -
  let ?six = "a # TW_MR_SLA_NACK # b # TW_MR_SLA_NACK # c # TW_MR_SLA_NACK # rest"
  have not_in: "TW_MT_DATA_ACK \<notin> {TW_START, TW_REP_START, TW_MT_SLA_NACK}"
    by (simp add: TW_defs)
  text \<open>The run cannot end in or right after the first address phase.\<close>
  have early: False
    if a: "addr_loop T 16 17 18 (device AND 0xFE) TW_MT_SLA_NACK 2 h = (res, h1)"
      and e: "extends h1 h'"
      and s: "statuses (run_events h1 h') = tail'" "TW_MT_DATA_ACK \<notin> set tail'"
      and l: "case res of Inl e \<Rightarrow> tail' = [] | Inr t \<Rightarrow> t \<noteq> TW_MT_DATA_ACK \<and> length tail' \<le> 1"
    for res h1 tail'
  proof -
    from addr_loop_alphabet [OF a] obtain ss tail
      where al: "statuses (run_events h h1) = ss @ tail"
        "set ss \<subseteq> {TW_START, TW_REP_START, TW_MT_SLA_NACK}"
        "case res of Inl e \<Rightarrow> length tail \<le> 1 | Inr t \<Rightarrow> tail = [t]"
      by blast
    have whole: "pre @ TW_MT_DATA_ACK # ?six = ss @ tail @ tail'"
      using nacks al(1) s(1) by (simp add: run_events_trans [OF addr_loop_extends [OF a] e])
    show False
    proof (cases res)
      case (Inl e)
      with l al(3) have "length (tail @ tail') \<le> 1" by simp
      from first_occurrence_last [OF whole [folded append_assoc, unfolded append_assoc] _ this]
        al(2) not_in show False by auto
    next
      case (Inr t)
      with l al(3) have t: "tail = [t]" "t \<noteq> TW_MT_DATA_ACK" "length tail' \<le> 1"
        by simp_all
      have "pre @ TW_MT_DATA_ACK # ?six = (ss @ [t]) @ tail'"
        using whole t(1) by simp
      from first_occurrence_last [OF this _ t(3)] al(2) not_in t(2) show False
        by auto
    qed
  qed
  text \<open>Once the register byte is acknowledged, the second address phase decides.\<close>
  have late: "(\<exists>e. res2 = Inl e \<and> statuses (run_events h6 h') \<noteq> [])
        \<or> (res2 = Inr TW_MR_SLA_NACK \<and> statuses (run_events h6 h') = rest)"
      and late_reads: "twdr_reads (run_events h h6) = []"
      and late_ext: "extends h h6"
    if a1: "addr_loop T 16 17 18 (device AND 0xFE) TW_MT_SLA_NACK 2 h = (Inr TW_MT_SLA_ACK, h1)"
      and t5: "trace h5 = trace h1 @ WrTWDR address # WrTWCR (cmd_GO T) # map RdTWCR vs
          @ [RdTWSR sr]"
      and dack: "sr AND 0xF8 = TW_MT_DATA_ACK"
      and a2: "addr_loop T 22 23 24 (device OR 0x01) TW_MR_SLA_NACK 2 h5 = (res2, h6)"
      and e: "extends h6 h'"
    for h1 h5 h6 vs sr res2
  proof -
    from addr_loop_alphabet [OF a1] obtain ss
      where al: "statuses (run_events h h1) = ss @ [TW_MT_SLA_ACK]"
        "set ss \<subseteq> {TW_START, TW_REP_START, TW_MT_SLA_NACK}"
      by auto
    note e01 = addr_loop_extends [OF a1]
    have e15: "extends h1 h5" using t5 by (auto simp: extends_def)
    note e56 = addr_loop_extends [OF a2]
    note e05 = extends_trans [OF e01 e15]
    note e5' = extends_trans [OF e56 e]
    show "extends h h6" by (rule extends_trans [OF e05 e56])
    have s05: "statuses (run_events h h5) = (ss @ [TW_MT_SLA_ACK]) @ [TW_MT_DATA_ACK]"
      using al(1) run_events_eq [OF t5] dack by (simp add: run_events_trans [OF e01 e15])
    have eq: "(ss @ [TW_MT_SLA_ACK]) @ TW_MT_DATA_ACK # statuses (run_events h5 h')
        = pre @ TW_MT_DATA_ACK # ?six"
      using nacks s05 by (simp add: run_events_trans [OF e05 e5'])
    have "TW_MT_DATA_ACK \<notin> set (ss @ [TW_MT_SLA_ACK])"
      using al(2) not_in by (auto simp: TW_defs)
    from first_occurrence_unique [OF eq this first]
    have "statuses (run_events h5 h') = ?six"
      by simp
    then have "statuses (run_events h5 h6) @ statuses (run_events h6 h') =
        concat (map (\<lambda>s. [s, TW_MR_SLA_NACK]) [a, b, c]) @ rest"
      by (simp add: run_events_trans [OF e56 e])
    from addr_loop_nacks [OF a2 _ this]
    show "(\<exists>e. res2 = Inl e \<and> statuses (run_events h6 h') \<noteq> [])
        \<or> (res2 = Inr TW_MR_SLA_NACK \<and> statuses (run_events h6 h') = rest)"
      by simp
    show "twdr_reads (run_events h h6) = []"
      using addr_loop_twdr_reads [OF a1] addr_loop_twdr_reads [OF a2] run_events_eq [OF t5]
      by (simp add: run_events_trans [OF e05 e56] run_events_trans [OF e01 e15])
  qed
  from run show ?thesis
  proof (cases rule: readBuf_phases)
    case (addr_w_failed e)
    from early [OF addr_w_failed(1), of "[]"] show ?thesis by simp
  next
    case (addr_w_refused t)
    show ?thesis
    proof (cases "t = TW_MT_DATA_ACK")
      case False
      with early [OF addr_w_refused(1), of "[]"] show ?thesis by simp
    next
      case True
      from addr_loop_alphabet [OF addr_w_refused(1)] obtain ss tail
        where al: "statuses (run_events h h') = ss @ tail"
          "set ss \<subseteq> {TW_START, TW_REP_START, TW_MT_SLA_NACK}" "tail = [t]"
        by auto
      from first_occurrence_last [of pre TW_MT_DATA_ACK ?six ss tail] nacks al not_in
      show ?thesis by auto
    qed
  next
    case (reg_timeout h1 vs)
    have "extends h1 h'" using reg_timeout(2) by (auto simp: extends_def)
    from early [OF reg_timeout(1) this, of "[]"] run_events_eq [OF reg_timeout(2)]
    show ?thesis by (simp add: TW_defs)
  next
    case (reg_refused h1 vs sr)
    have "extends h1 h'" using reg_refused(2) by (auto simp: extends_def)
    from early [OF reg_refused(1) this, of "[sr AND 0xF8]"] run_events_eq [OF reg_refused(2)]
      reg_refused(3)
    show ?thesis by (simp add: TW_defs)
  next
    case (addr_r_failed h1 vs sr h5 e)
    from late [OF addr_r_failed(1-4)] show ?thesis by simp
  next
    case (addr_r_refused h1 vs sr h5 t)
    from late [OF addr_r_refused(1-4)] addr_r_refused(4)
    have t: "addr_loop T 22 23 24 (device OR 0x01) TW_MR_SLA_NACK 2 h5 = (Inr TW_MR_SLA_NACK, h')"
      and rest: "rest = []"
      by auto
    from addr_loop_Inr_last [OF t] obtain evs x
      where last: "trace h' = trace h5 @ evs @ [RdTWSR x]"
      by blast
    have "extends h h5"
      using addr_loop_extends [OF addr_r_refused(1)] addr_r_refused(2)
      by (auto simp: extends_def)
    from extends_trace [OF this] last
    have "trace h' = trace h @ (run_events h h5 @ evs) @ [RdTWSR x]"
      by simp
    from run_events_eq [OF this] have "\<exists>evs sr. run_events h h' = evs @ [RdTWSR sr]"
      by blast
    with rest addr_r_refused(6,7) late_reads [OF addr_r_refused(1-4)] show ?thesis
      by simp
  next
    case (data_failed h1 vs sr h5 h6 e)
    from late [OF data_failed(1-4) readBuf_loop_extends [OF data_failed(5)]]
    show ?thesis by (simp add: TW_defs)
  next
    case (data_done h1 vs sr h5 h6 h7 ws)
    have "extends h6 h'"
      using readBuf_loop_extends [OF data_done(5)] data_done(6) by (auto simp: extends_def)
    from late [OF data_done(1-4) this]
    show ?thesis by (simp add: TW_defs)
  qed
qed

lemma check_timeout_trace:
  assumes "check_timeout T timeout t1 count len h = (count', h')"
  obtains evs where "trace h' = trace h @ evs"
    "twcr_reads evs = []" "twdr_reads evs = []" "twcr_writes evs = []" "twdr_writes evs = []"
    "statuses evs = []" "count' = count \<or> count' = - 1"
proof (cases "timeout > 0")
  case False
  with assms have "count' = count" "h' = h"
    by (simp_all add: check_timeout_def)
  with that [of "[]"] show thesis by simp
next
  case True
  obtain t2 h1 where m: "millis T h = (t2, h1)"
    by (cases "millis T h")
  with True assms have "count' = count \<or> count' = - 1" "h' = h1"
    by (auto simp: check_timeout_def split: if_splits)
  with that [of "[RdMsec t2]"] trace_rd(4) [OF m] show thesis by simp
qed

section \<open>I2Cdev\_writeBytes and the acknowledge bit\<close>

lemma writeBytes_always_true:
  "fst (I2Cdev_writeBytes T devAddr regAddr len data h) = 1"
  by (simp add: I2Cdev_writeBytes_def Let_def)

text \<open>
  Claim C3 says that \<open>I2Cdev_writeBytes\<close> returns success if and only if no transmitted
  byte was answered with NACK. The code does not: its \<open>status\<close> is never assigned, so it
  returns 1 whatever the bus answered (\<open>writeBytes_always_true\<close>). In the run below the
  slave acknowledges its address (status 0x18) and the register byte 0x6B (status 0x28)
  and answers the data byte 0x5A with NACK (status 0x30); the call still returns 1.
\<close>

theorem writeBytes_nack_reported_as_success:
  "fst (I2Cdev_writeBytes scripted 0x68 0x6B 1 (filled 0x5A)
          (boot 0x80 [0x08, 0x18, 0x28, 0x30] [])) = 1
   \<and> trace (snd (I2Cdev_writeBytes scripted 0x68 0x6B 1 (filled 0x5A)
          (boot 0x80 [0x08, 0x18, 0x28, 0x30] []))) =
       [WrTWCR 0xB4, RdTWCR 0x80, RdTWSR 0x08,
        WrTWDR 0xD0, WrTWCR 0x84, RdTWCR 0x80, RdTWSR 0x18,
        WrTWDR 0x6B, WrTWCR 0x84, RdTWCR 0x80, RdTWSR 0x28,
        WrTWDR 0x5A, WrTWCR 0x84, RdTWCR 0x80, RdTWSR 0x30,
        WrTWCR 0x94, RdTWCR 0x80]
   \<and> fst (Fastwire_write scripted 0x5A (boot 0x80 [0x30] [])) = 2"
  by (simp add: exec)

section \<open>I2Cdev\_writeWords and the order of the bytes on the wire\<close>

text \<open>
  Claim C2 says that \<open>I2Cdev_writeWords\<close> transmits every word of the buffer once, high
  byte first, and aborts at the first byte answered with NACK. The code does not: its
  index is incremented twice per iteration, so iteration \<open>k\<close> sends \<open>data[2k]\<close>. With two
  words 0x1122, 0x3344 in the buffer and 0xAABB behind it, the bytes put on the wire
  after the address 0xD0 and the register 0x3B are 0x11, 0x22, 0xAA, 0xBB: the second
  word is never sent and memory behind the buffer is. Only the status of the low byte
  is looked at: in the second run the high byte 0x11 is answered with NACK (status
  0x30), the low byte is sent all the same and the call returns 1.
\<close>

theorem writeWords_skips_every_other_word:
  "I2Cdev_writeWords scripted 0x68 0x3B 2 two_words
      (boot 0x80 [0x08, 0x18, 0x28, 0x28, 0x28, 0x28, 0x28] []) \<noteq> None
   \<and> fst (the (I2Cdev_writeWords scripted 0x68 0x3B 2 two_words
      (boot 0x80 [0x08, 0x18, 0x28, 0x28, 0x28, 0x28, 0x28] []))) = 1
   \<and> twdr_writes (trace (snd (the (I2Cdev_writeWords scripted 0x68 0x3B 2 two_words
      (boot 0x80 [0x08, 0x18, 0x28, 0x28, 0x28, 0x28, 0x28] []))))) =
       [0xD0, 0x3B, 0x11, 0x22, 0xAA, 0xBB]
   \<and> fst (the (I2Cdev_writeWords scripted 0x68 0x3B 1 two_words
      (boot 0x80 [0x08, 0x18, 0x28, 0x30, 0x28] []))) = 1
   \<and> twdr_writes (trace (snd (the (I2Cdev_writeWords scripted 0x68 0x3B 1 two_words
      (boot 0x80 [0x08, 0x18, 0x28, 0x30, 0x28] []))))) =
       [0xD0, 0x3B, 0x11, 0x22]"
  by (simp add: exec two_words_def)

section \<open>I2Cdev\_readWords and the packing of the received bytes\<close>

text \<open>
  Claim C1 says that \<open>I2Cdev_readWords\<close> packs the received bytes in pairs, big-endian:
  output word \<open>i\<close> is \<open>(byte[2i] << 8) | byte[2i+1]\<close>, so that the bytes 0x12, 0x34 give
  0x1234. The code does not: it indexes the receive buffer as 16-bit elements, so word
  \<open>i\<close> is built from the bytes \<open>4i .. 4i+3\<close>. Receiving 0x12, 0x34, 0x56, 0x78 for two
  words, whatever the stack held before, the first word is 0x7A56 on a little-endian
  target and 0x7678 on a big-endian one, not 0x1234. Receiving 0x12, 0x34 for one word
  on a zeroed stack gives 0x1200.
\<close>

theorem readWords_not_big_endian:
  "fst (I2Cdev_readWords scripted 0x68 0x3B 2 (filled 0) 0 frame
     (boot 0x80 [0x08, 0x18, 0x28, 0x10, 0x40, 0x50, 0x50, 0x50, 0x58] [0x12, 0x34, 0x56, 0x78])) = 2
   \<and> twdr_reads (trace (snd (snd (I2Cdev_readWords scripted 0x68 0x3B 2 (filled 0) 0 frame
     (boot 0x80 [0x08, 0x18, 0x28, 0x10, 0x40, 0x50, 0x50, 0x50, 0x58] [0x12, 0x34, 0x56, 0x78])))))
       = [0x12, 0x34, 0x56, 0x78]
   \<and> fst (snd (I2Cdev_readWords scripted 0x68 0x3B 2 (filled 0) 0 frame
     (boot 0x80 [0x08, 0x18, 0x28, 0x10, 0x40, 0x50, 0x50, 0x50, 0x58] [0x12, 0x34, 0x56, 0x78]))) 0
       = 0x7A56
   \<and> fst (snd (I2Cdev_readWords (scripted\<lparr>little_endian := False\<rparr>) 0x68 0x3B 2 (filled 0) 0 frame
     (boot 0x80 [0x08, 0x18, 0x28, 0x10, 0x40, 0x50, 0x50, 0x50, 0x58] [0x12, 0x34, 0x56, 0x78]))) 0
       = 0x7678
   \<and> fst (snd (I2Cdev_readWords scripted 0x68 0x3B 1 (filled 0) 0 (filled 0)
     (boot 0x80 [0x08, 0x18, 0x28, 0x10, 0x40, 0x50, 0x58] [0x12, 0x34]))) 0
       = 0x1200"
  by (simp add: exec load16_def)

section \<open>I2Cdev\_writeBits after a failed read\<close>

lemma readByte_count:
  "fst (I2Cdev_readByte T devAddr regAddr data timeout h) = 1
   \<or> fst (I2Cdev_readByte T devAddr regAddr data timeout h) = - 1"
  by (simp add: I2Cdev_readByte_def I2Cdev_readBytes_def check_timeout_def Let_def
      split: prod.splits)

lemma writeBits_always_true:
  "fst (I2Cdev_writeBits T readTimeout devAddr regAddr bitStart len data b0 h) = 1"
  using readByte_count [of T devAddr regAddr "filled b0" readTimeout h]
  by (auto simp: I2Cdev_writeBits_def I2Cdev_writeByte_def writeBytes_always_true Let_def
      split: prod.splits)

text \<open>
  Claim C4 says that \<open>I2Cdev_writeBits\<close> returns false and writes nothing when its
  initial read fails. The code does not: it tests the count of the read against 0, and
  a failed read returns the count -1 (255 as a \<open>uint8_t\<close>), never 0
  (\<open>readByte_count\<close>), so the write always follows and the function always returns 1
  (\<open>writeBits_always_true\<close>). In the run below the slave answers the address byte of
  the read three times with NACK, so the read returns -1; the slave then acknowledges
  the write. The function returns 1 and puts on the wire the register address 0x3B and
  the byte 0xAB, computed from the uninitialised local (here 0xAF).
\<close>

theorem writeBits_writes_after_failed_read:
  "fst (I2Cdev_readByte scripted 0x68 0x3B (filled 0xAF) 1000
      (boot 0x80 [0x08, 0x20, 0x08, 0x20, 0x08, 0x20, 0x08, 0x18, 0x28, 0x28] [])) = - 1
   \<and> fst (I2Cdev_writeBits scripted 1000 0x68 0x3B 4 3 2 0xAF
      (boot 0x80 [0x08, 0x20, 0x08, 0x20, 0x08, 0x20, 0x08, 0x18, 0x28, 0x28] [])) = 1
   \<and> twdr_writes (trace (snd (I2Cdev_writeBits scripted 1000 0x68 0x3B 4 3 2 0xAF
      (boot 0x80 [0x08, 0x20, 0x08, 0x20, 0x08, 0x20, 0x08, 0x18, 0x28, 0x28] [])))) =
       [0xD0, 0xD0, 0xD0, 0xD0, 0x3B, 0xAB]"
  by (simp add: exec I2Cdev_writeBits_def field_mask_def field_shift_def)

section \<open>The status of a received byte\<close>

text \<open>
  A data phase that runs to its end asks for every byte but the last with the
  acknowledge bit set, and for the last one without it.
\<close>

lemma readBuf_loop_commands:
  assumes "readBuf_loop T i num data h = (None, data', h')" "i < num"
  shows "twcr_writes (run_events h h') = replicate (num - Suc i) (cmd_GO_ACK T) @ [cmd_GO T]"
  using assms
proof (induction n \<equiv> "num - i" arbitrary: i data h)
  case 0
  then show ?case by simp
next
  case (Suc n)
  from Suc.prems(1) show ?case
  proof (cases rule: readBuf_loop_cases)
    case (stored vs sr v h4)
    have e1: "extends h h4"
      using stored(2) by (auto simp: extends_def)
    note e2 = readBuf_loop_extends [OF stored(4)]
    have first: "twcr_writes (run_events h h4) = [if i = num - 1 then cmd_GO T else cmd_GO_ACK T]"
      by (simp add: run_events_eq [OF stored(2)])
    show ?thesis
    proof (cases "i + 1 < num")
      case True
      from Suc.hyps(2) True have "n = num - (i + 1)" by simp
      from Suc.hyps(1) [OF this stored(4) True] first True
      show ?thesis
        by (simp add: run_events_trans [OF e1 e2] Suc_diff_Suc flip: replicate_Suc)
    next
      case False
      with stored(1) have last: "i = num - 1" "num - Suc i = 0" by simp_all
      from stored(4) False have "h' = h4"
        by (simp add: readBuf_loop.simps [of T "Suc i"])
      with first last show ?thesis by simp
    qed
  qed (use Suc.prems in simp_all)
qed

text \<open>
  Claim C9 says that the data phase of a read fails with a protocol error on every
  status other than DATA\_ACK and DATA\_NACK. The code returns the status itself as the
  error code, and the status 0x00 (the peripheral's bus error) is the code for success:
  in the run below the status after the command for the only byte is 0x00,
  \<open>Fastwire_readBuf\<close> returns 0 without taking a byte out of \<open>TWDR\<close> and without a
  STOP, the buffer still holds 0x77, and \<open>I2Cdev_readBytes\<close> reports one byte read.
\<close>

theorem readBuf_status_zero_is_success:
  "Fastwire_readBuf scripted 0xD0 0x3B (filled 0x77) 1
      (boot 0x80 [0x08, 0x18, 0x28, 0x10, 0x40, 0x00] [0xAB]) =
     (0, filled 0x77,
      \<lparr>dev = \<lparr>cr_script = [], cr_rest = 0x80, sr_script = [], dr_script = [0xAB], ms_script = []\<rparr>,
       trace = [WrTWCR 0xB4, RdTWCR 0x80, RdTWSR 0x08,
                WrTWDR 0xD0, WrTWCR 0x84, RdTWCR 0x80, RdTWSR 0x18,
                WrTWDR 0x3B, WrTWCR 0x84, RdTWCR 0x80, RdTWSR 0x28,
                WrTWCR 0xB4, RdTWCR 0x80, RdTWSR 0x10,
                WrTWDR 0xD1, WrTWCR 0x84, RdTWCR 0x80, RdTWSR 0x40,
                WrTWCR 0x84, RdTWCR 0x80, RdTWSR 0x00]\<rparr>)
   \<and> fst (I2Cdev_readBytes scripted 0x68 0x3B 1 (filled 0x77) 1000
      (boot 0x80 [0x08, 0x18, 0x28, 0x10, 0x40, 0x00] [0xAB])) = 1"
  by (simp add: exec)

section \<open>Address phases answered with NACK\<close>

text \<open>
  Claim C5, as stated, says that two NACKs in a row on the address phase exhaust the
  retry budget, so that the read returns the address-NACK code without a data phase.
  The code retries twice after the first attempt: in the run below the slave answers
  the address byte with NACK twice (status 0x20) and acknowledges the third attempt
  (0x18); the read goes on, takes the byte 0xAB out of \<open>TWDR\<close>, stores it and returns 0.
\<close>

theorem readBuf_two_nacks_then_ack:
  "fst (Fastwire_readBuf scripted 0xD0 0x3B (filled 0) 1
      (boot 0x80 [0x08, 0x20, 0x08, 0x20, 0x08, 0x18, 0x28, 0x10, 0x40, 0x58] [0xAB])) = 0
   \<and> fst (snd (Fastwire_readBuf scripted 0xD0 0x3B (filled 0) 1
      (boot 0x80 [0x08, 0x20, 0x08, 0x20, 0x08, 0x18, 0x28, 0x10, 0x40, 0x58] [0xAB]))) 0 = 0xAB
   \<and> statuses (trace (snd (snd (Fastwire_readBuf scripted 0xD0 0x3B (filled 0) 1
      (boot 0x80 [0x08, 0x20, 0x08, 0x20, 0x08, 0x18, 0x28, 0x10, 0x40, 0x58] [0xAB])))))
       = [0x08, 0x20, 0x08, 0x20, 0x08, 0x18, 0x28, 0x10, 0x40, 0x58]
   \<and> twdr_reads (trace (snd (snd (Fastwire_readBuf scripted 0xD0 0x3B (filled 0) 1
      (boot 0x80 [0x08, 0x20, 0x08, 0x20, 0x08, 0x18, 0x28, 0x10, 0x40, 0x58] [0xAB])))))
       = [0xAB]"
  by (simp add: exec)

text \<open>
  Claim C5, amended: three NACKs in a row on an address phase (the first attempt and
  both retries) end the read with the address-NACK code and without a data phase. For
  every target, every state and every call of \<open>Fastwire_readBuf\<close>: if the statuses the
  run looked at begin with three rounds of a START status followed by
  \<open>TW_MT_SLA_NACK\<close>, the call returns 19; if, after the first acknowledged register byte
  (\<open>TW_MT_DATA_ACK\<close>), they go on with three rounds of a START status followed by
  \<open>TW_MR_SLA_NACK\<close>, the call returns 25. In both cases the third NACK is the last
  status of the run (\<open>rest = []\<close>) and the status read that reported it is the last
  event of the run, the caller's buffer is unchanged and no byte was taken out of
  \<open>TWDR\<close>.
\<close>

theorem readBuf_address_nack:
  assumes "Fastwire_readBuf T device address data num h = (r, data', h')"
  shows "(statuses (run_events h h') =
            a # TW_MT_SLA_NACK # b # TW_MT_SLA_NACK # c # TW_MT_SLA_NACK # rest
          \<longrightarrow> r = 19 \<and> rest = [] \<and> data' = data \<and> twdr_reads (run_events h h') = []
              \<and> (\<exists>evs sr. run_events h h' = evs @ [RdTWSR sr]))
       \<and> (statuses (run_events h h') =
            pre @ TW_MT_DATA_ACK # a # TW_MR_SLA_NACK # b # TW_MR_SLA_NACK # c # TW_MR_SLA_NACK # rest
          \<and> TW_MT_DATA_ACK \<notin> set pre
          \<longrightarrow> r = 25 \<and> rest = [] \<and> data' = data \<and> twdr_reads (run_events h h') = []
              \<and> (\<exists>evs sr. run_events h h' = evs @ [RdTWSR sr]))"
  using readBuf_write_address_nacks [OF assms] readBuf_read_address_nacks [OF assms]
  by blast

theorem readBuf_address_nack_witness:
  "statuses (run_events (boot 0x80 [0x08, 0x20, 0x08, 0x20, 0x08, 0x20] [0xAB])
      (snd (snd (Fastwire_readBuf scripted 0xD0 0x3B (filled 0) 1
         (boot 0x80 [0x08, 0x20, 0x08, 0x20, 0x08, 0x20] [0xAB])))))
     = [0x08, TW_MT_SLA_NACK, 0x08, TW_MT_SLA_NACK, 0x08, TW_MT_SLA_NACK]
   \<and> fst (Fastwire_readBuf scripted 0xD0 0x3B (filled 0) 1
         (boot 0x80 [0x08, 0x20, 0x08, 0x20, 0x08, 0x20] [0xAB])) = 19
   \<and> statuses (run_events (boot 0x80 [0x08, 0x18, 0x28, 0x10, 0x48, 0x10, 0x48, 0x10, 0x48] [0xAB])
      (snd (snd (Fastwire_readBuf scripted 0xD0 0x3B (filled 0) 1
         (boot 0x80 [0x08, 0x18, 0x28, 0x10, 0x48, 0x10, 0x48, 0x10, 0x48] [0xAB])))))
     = [0x08, 0x18] @ [TW_MT_DATA_ACK, 0x10, TW_MR_SLA_NACK, 0x10, TW_MR_SLA_NACK, 0x10, TW_MR_SLA_NACK]
   \<and> TW_MT_DATA_ACK \<notin> set [0x08, 0x18 :: uint8_t]
   \<and> fst (Fastwire_readBuf scripted 0xD0 0x3B (filled 0) 1
         (boot 0x80 [0x08, 0x18, 0x28, 0x10, 0x48, 0x10, 0x48, 0x10, 0x48] [0xAB])) = 25"
proof -
  let ?h1 = "boot 0x80 [0x08, 0x20, 0x08, 0x20, 0x08, 0x20] [0xAB]"
  let ?h2 = "boot 0x80 [0x08, 0x18, 0x28, 0x10, 0x48, 0x10, 0x48, 0x10, 0x48] [0xAB]"
  let ?r1 = "Fastwire_readBuf scripted 0xD0 0x3B (filled 0) 1 ?h1"
  let ?r2 = "Fastwire_readBuf scripted 0xD0 0x3B (filled 0) 1 ?h2"
  have s1: "statuses (run_events ?h1 (snd (snd ?r1)))
      = [0x08, TW_MT_SLA_NACK, 0x08, TW_MT_SLA_NACK, 0x08, TW_MT_SLA_NACK]"
    by (simp add: exec run_events_def)
  have s2: "statuses (run_events ?h2 (snd (snd ?r2)))
      = [0x08, 0x18] @ [TW_MT_DATA_ACK, 0x10, TW_MR_SLA_NACK, 0x10, TW_MR_SLA_NACK, 0x10, TW_MR_SLA_NACK]"
    by (simp add: exec run_events_def)
  have n2: "TW_MT_DATA_ACK \<notin> set [0x08, 0x18 :: uint8_t]"
    by (simp add: TW_defs)
  have p1: "?r1 = (fst ?r1, fst (snd ?r1), snd (snd ?r1))" and
    p2: "?r2 = (fst ?r2, fst (snd ?r2), snd (snd ?r2))"
    by simp_all
  from readBuf_address_nack [OF p1, where a = "0x08" and b = "0x08" and c = "0x08"
      and rest = "[]"] s1
  have "fst ?r1 = 19" by simp
  moreover
  from readBuf_address_nack [OF p2, where pre = "[0x08, 0x18]" and a = "0x10" and b = "0x10"
      and c = "0x10" and rest = "[]"] s2 n2
  have "fst ?r2 = 25" by simp
  ultimately show ?thesis using s1 s2 n2 by blast
qed

section \<open>A peripheral that never completes\<close>

text \<open>
  The block read gives up cleanly. For every target, every state and every call of
  \<open>I2Cdev_readBytes\<close>: if none of the first 250 values the run polled from \<open>TWCR\<close> has
  \<open>TWINT\<close> set, the call returns -1 (255 as a \<open>uint8_t\<close>), the buffer is unchanged, no
  byte was taken out of \<open>TWDR\<close>, and the START command is the only command the run
  wrote.
\<close>

lemma readBytes_spin_timeout:
  assumes run: "I2Cdev_readBytes T devAddr regAddr len data timeout h = (count, data', h')"
    and never: "\<forall>v \<in> set (take 250 (twcr_reads (run_events h h'))). v AND bv (TWINT T) = 0"
  shows "count = - 1 \<and> data' = data \<and> twdr_reads (run_events h h') = []
     \<and> twcr_writes (run_events h h') = [cmd_START T]"
proof -
  obtain t1 h1 where m: "millis T h = (t1, h1)"
    by (cases "millis T h")
  obtain st d2 h2
    where rb: "Fastwire_readBuf T (push_bit 1 devAddr) regAddr data len h1 = (st, d2, h2)"
    by (cases "Fastwire_readBuf T (push_bit 1 devAddr) regAddr data len h1")
  let ?c = "if st = 0 then len else - 1"
  from run m rb have ct: "check_timeout T timeout t1 ?c len h2 = (count, h')"
    and d: "data' = d2"
    by (auto simp: I2Cdev_readBytes_def Let_def split: prod.splits)
  from check_timeout_trace [OF ct] obtain evs where evs: "trace h' = trace h2 @ evs"
    "twcr_reads evs = []" "twdr_reads evs = []" "twcr_writes evs = []"
    "count = ?c \<or> count = - 1"
    by metis
  from readBuf_after_addr_w [OF rb] obtain res hA where
    a: "addr_loop T 16 17 18 (push_bit 1 devAddr AND 0xFE) TW_MT_SLA_NACK 2 h1 = (res, hA)"
    and e2: "extends hA h2"
    and stop: "res \<noteq> Inr TW_MT_SLA_ACK \<longrightarrow>
       h2 = hA \<and> d2 = data \<and> (\<forall>t. res = Inr t \<longrightarrow> st = 19) \<and> (\<forall>e. res = Inl e \<longrightarrow> st = e)"
    by blast
  from addr_loop_trace [OF a] obtain vs post
    where tA: "trace hA = trace h1 @ WrTWCR (cmd_START T) # map RdTWCR vs @ post"
      and spin: "(\<forall>v \<in> set (take 250 vs). v AND bv (TWINT T) = 0) \<longrightarrow> res = Inl 16 \<and> post = []"
    by blast
  have whole: "trace h' = trace h @ RdMsec t1 # WrTWCR (cmd_START T) # map RdTWCR vs
      @ post @ run_events hA h2 @ evs"
    using trace_rd(4) [OF m] tA extends_trace [OF e2] evs(1) by simp
  have "set (take 250 vs) \<subseteq> set (take 250 (twcr_reads (run_events h h')))"
    by (auto simp: run_events_eq [OF whole])
  with never spin have res: "res = Inl 16" and post: "post = []"
    by blast+
  with stop have same: "h2 = hA" "d2 = data" "st = 16"
    by simp_all
  from evs(5) same(3) have "count = - 1" by simp
  moreover have "run_events h h' = RdMsec t1 # WrTWCR (cmd_START T) # map RdTWCR vs @ evs"
    using run_events_eq [OF whole] post same(1) by simp
  ultimately show ?thesis
    using d same(2) evs(2-4) by simp
qed

text \<open>A run of it: a peripheral whose \<open>TWCR\<close> always reads 0.\<close>

lemma readBytes_spin_timeout_run:
  "set (take 250 (twcr_reads (run_events (boot 0x00 [] [])
        (snd (snd (I2Cdev_readBytes scripted 0x68 0x3B 6 (filled 0x77) 1000 (boot 0x00 [] [])))))))
     = {0}
   \<and> fst (I2Cdev_readBytes scripted 0x68 0x3B 6 (filled 0x77) 1000 (boot 0x00 [] [])) = - 1
   \<and> fst (snd (I2Cdev_readBytes scripted 0x68 0x3B 6 (filled 0x77) 1000 (boot 0x00 [] [])))
       = filled 0x77"
proof -
  let ?h = "boot 0x00 [] []"
  let ?r = "I2Cdev_readBytes scripted 0x68 0x3B 6 (filled 0x77) 1000 ?h"
  have p: "?r = (fst ?r, fst (snd ?r), snd (snd ?r))"
    by simp
  have polls: "set (take 250 (twcr_reads (run_events ?h (snd (snd ?r))))) = {0}"
    by (simp add: exec run_events_def waitInt_loop.simps)
  then have "\<forall>v \<in> set (take 250 (twcr_reads (run_events ?h (snd (snd ?r))))).
      v AND bv (TWINT scripted) = 0"
    by simp
  from readBytes_spin_timeout [OF p this] polls show ?thesis
    by simp
qed

text \<open>The word read gives up in the same way.\<close>

lemma readWords_spin_timeout:
  assumes run: "I2Cdev_readWords T devAddr regAddr len data timeout frame h = (count, data', h')"
    and never: "\<forall>v \<in> set (take 250 (twcr_reads (run_events h h'))). v AND bv (TWINT T) = 0"
  shows "count = - 1 \<and> data' = data \<and> twdr_reads (run_events h h') = []
     \<and> twcr_writes (run_events h h') = [cmd_START T]"
proof -
  obtain t1 h1 where m: "millis T h = (t1, h1)"
    by (cases "millis T h")
  obtain st d2 h2
    where rb: "Fastwire_readBuf T (push_bit 1 devAddr) regAddr frame (len * 2) h1 = (st, d2, h2)"
    by (cases "Fastwire_readBuf T (push_bit 1 devAddr) regAddr frame (len * 2) h1")
  let ?c = "if st = 0 then len else - 1"
  from run m rb have ct: "check_timeout T timeout t1 ?c len h2 = (count, h')"
    and d: "st \<noteq> 0 \<longrightarrow> data' = data"
    by (auto simp: I2Cdev_readWords_def Let_def split: prod.splits)
  from check_timeout_trace [OF ct] obtain evs where evs: "trace h' = trace h2 @ evs"
    "twcr_reads evs = []" "twdr_reads evs = []" "twcr_writes evs = []"
    "count = ?c \<or> count = - 1"
    by metis
  from readBuf_after_addr_w [OF rb] obtain res hA where
    a: "addr_loop T 16 17 18 (push_bit 1 devAddr AND 0xFE) TW_MT_SLA_NACK 2 h1 = (res, hA)"
    and e2: "extends hA h2"
    and stop: "res \<noteq> Inr TW_MT_SLA_ACK \<longrightarrow>
       h2 = hA \<and> d2 = frame \<and> (\<forall>t. res = Inr t \<longrightarrow> st = 19) \<and> (\<forall>e. res = Inl e \<longrightarrow> st = e)"
    by blast
  from addr_loop_trace [OF a] obtain vs post
    where tA: "trace hA = trace h1 @ WrTWCR (cmd_START T) # map RdTWCR vs @ post"
      and spin: "(\<forall>v \<in> set (take 250 vs). v AND bv (TWINT T) = 0) \<longrightarrow> res = Inl 16 \<and> post = []"
    by blast
  have whole: "trace h' = trace h @ RdMsec t1 # WrTWCR (cmd_START T) # map RdTWCR vs
      @ post @ run_events hA h2 @ evs"
    using trace_rd(4) [OF m] tA extends_trace [OF e2] evs(1) by simp
  have "set (take 250 vs) \<subseteq> set (take 250 (twcr_reads (run_events h h')))"
    by (auto simp: run_events_eq [OF whole])
  with never spin have res: "res = Inl 16" and post: "post = []"
    by blast+
  with stop have same: "h2 = hA" "st = 16"
    by simp_all
  from evs(5) same(2) have "count = - 1" by simp
  moreover have "run_events h h' = RdMsec t1 # WrTWCR (cmd_START T) # map RdTWCR vs @ evs"
    using run_events_eq [OF whole] post same(1) by simp
  ultimately show ?thesis
    using d same(2) evs(2-4) by simp
qed

text \<open>
  When the flag stops coming later in the transfer, the bytes received before are in
  the buffer already: here the first of two bytes is stored and the count is \<open>-1\<close>.
\<close>

lemma readBytes_late_spin_timeout:
  "fst (I2Cdev_readBytes scripted 0x68 0x3B 2 (filled 0x77) 1000
      (boot_polls [0x80, 0x80, 0x80, 0x80, 0x80, 0x80] 0x00
         [0x08, 0x18, 0x28, 0x10, 0x40, 0x50] [0xAB])) = - 1
   \<and> fst (snd (I2Cdev_readBytes scripted 0x68 0x3B 2 (filled 0x77) 1000
      (boot_polls [0x80, 0x80, 0x80, 0x80, 0x80, 0x80] 0x00
         [0x08, 0x18, 0x28, 0x10, 0x40, 0x50] [0xAB]))) 0 = 0xAB
   \<and> fst (snd (I2Cdev_readBytes scripted 0x68 0x3B 2 (filled 0x77) 1000
      (boot_polls [0x80, 0x80, 0x80, 0x80, 0x80, 0x80] 0x00
         [0x08, 0x18, 0x28, 0x10, 0x40, 0x50] [0xAB]))) 1 = 0x77"
  by (simp add: exec boot_polls_def waitInt_loop.simps)

subsection \<open>The bit reads on the same peripheral\<close>

text \<open>
  \<open>I2Cdev_readBits\<close> guards its store with \<open>count != 0\<close>. A byte read that gave up
  returns -1, which is 255 in the \<open>uint8_t count\<close> and not 0, so the guard lets the
  store through: the field of the local \<open>b\<close>, which the failed read has not written, goes
  into \<open>*data\<close>, whatever \<open>*data\<close> held before. \<open>I2Cdev_readBit\<close> has no guard at all.
\<close>

lemma readBits_spin_timeout:
  assumes run: "I2Cdev_readBits T devAddr regAddr bitStart len data timeout b0 h = (count, data', h')"
    and never: "\<forall>v \<in> set (take 250 (twcr_reads (run_events h h'))). v AND bv (TWINT T) = 0"
  shows "count = - 1
     \<and> data' = drop_bit (nat (field_shift bitStart len)) (b0 AND field_mask bitStart len)"
proof -
  obtain c m h1 where rb: "I2Cdev_readBytes T devAddr regAddr 1 (filled b0) timeout h = (c, m, h1)"
    by (cases "I2Cdev_readBytes T devAddr regAddr 1 (filled b0) timeout h")
  with run have same: "count = c" "h' = h1"
    by (auto simp: I2Cdev_readBits_def I2Cdev_readByte_def Let_def split: if_splits)
  from readBytes_spin_timeout [OF rb] never same have c: "c = - 1" and m: "m = filled b0"
    by simp_all
  from run rb c m show ?thesis
    by (simp add: I2Cdev_readBits_def I2Cdev_readByte_def Let_def filled_def)
qed

lemma readBit_spin_timeout:
  assumes run: "I2Cdev_readBit T devAddr regAddr bitNum timeout b0 h = (count, data', h')"
    and never: "\<forall>v \<in> set (take 250 (twcr_reads (run_events h h'))). v AND bv (TWINT T) = 0"
  shows "count = - 1 \<and> data' = b0 AND word_of_int (push_bit (unat bitNum) 1)"
proof -
  obtain c m h1 where rb: "I2Cdev_readBytes T devAddr regAddr 1 (filled b0) timeout h = (c, m, h1)"
    by (cases "I2Cdev_readBytes T devAddr regAddr 1 (filled b0) timeout h")
  with run have same: "count = c" "h' = h1"
    by (auto simp: I2Cdev_readBit_def I2Cdev_readByte_def)
  from readBytes_spin_timeout [OF rb] never same have c: "c = - 1" and m: "m = filled b0"
    by simp_all
  from run rb c m show ?thesis
    by (simp add: I2Cdev_readBit_def I2Cdev_readByte_def filled_def)
qed

text \<open>
  Claim C8 says that every read on a bus that never shows the operation-complete bit
  within the 250 polls returns the sentinel -1 and leaves the caller's buffer as it
  was. The code does not do so for the bit-field read. On a peripheral whose \<open>TWCR\<close>
  always reads 0, \<open>I2Cdev_readBits(0x68, 0x3B, 4, 3, &d, 1000)\<close> with \<open>d = 0\<close> on entry
  and \<open>0x0C\<close> in the local \<open>b\<close>: all 250 polls read 0, the call returns -1, and \<open>d\<close> is
  3 afterwards, bits 4..2 of the local.
\<close>

theorem readBits_spin_timeout_overwrites:
  "set (take 250 (twcr_reads (run_events (boot 0x00 [] [])
        (snd (snd (I2Cdev_readBits scripted 0x68 0x3B 4 3 0 1000 0x0C (boot 0x00 [] [])))))))
     = {0}
   \<and> fst (I2Cdev_readBits scripted 0x68 0x3B 4 3 0 1000 0x0C (boot 0x00 [] [])) = - 1
   \<and> fst (snd (I2Cdev_readBits scripted 0x68 0x3B 4 3 0 1000 0x0C (boot 0x00 [] []))) = 3"
  by (simp add: exec I2Cdev_readBits_def field_mask_def field_shift_def run_events_def
      waitInt_loop.simps)

text \<open>The single-bit read on the same peripheral: bit 2 of the local is stored.\<close>

lemma readBit_spin_timeout_overwrites:
  "set (take 250 (twcr_reads (run_events (boot 0x00 [] [])
        (snd (snd (I2Cdev_readBit scripted 0x68 0x3B 2 1000 0x0C (boot 0x00 [] [])))))))
     = {0}
   \<and> fst (I2Cdev_readBit scripted 0x68 0x3B 2 1000 0x0C (boot 0x00 [] [])) = - 1
   \<and> fst (snd (I2Cdev_readBit scripted 0x68 0x3B 2 1000 0x0C (boot 0x00 [] []))) = 4"
  by (simp add: exec I2Cdev_readBit_def run_events_def waitInt_loop.simps)

section \<open>Bit fields of a register\<close>

lemma field_shift_nat:
  assumes "unat len \<le> unat bitStart + 1"
  shows "nat (field_shift bitStart len) = unat bitStart + 1 - unat len"
proof -
  have a: "uint bitStart = int (unat bitStart)" and b: "uint len = int (unat len)"
    by simp_all
  show ?thesis
    unfolding field_shift_def a b using assms by linarith
qed

lemma field_mask_eq:
  "field_mask bitStart len = push_bit (nat (field_shift bitStart len)) (mask (unat len))"
  by (simp add: field_mask_def push_bit_of_1 of_int_push_bit of_int_mask_eq
      flip: mask_eq_exp_minus_1)

lemma read_field:
  "drop_bit s ((b :: uint8_t) AND push_bit s (mask n)) = take_bit n (drop_bit s b)"
  by (rule bit_eqI) (auto simp: bit_simps dest: bit_imp_le_length)

lemma write_field_bits:
  fixes b v :: uint8_t
  shows "bit ((b AND NOT (push_bit s (mask n))) OR (push_bit s v AND push_bit s (mask n))) i
     \<longleftrightarrow> (if s \<le> i \<and> i < s + n then i < 8 \<and> bit v (i - s) else bit b i)"
  by (auto simp: bit_simps dest: bit_imp_le_length)

lemma write_then_read_field:
  fixes b v :: uint8_t
  shows "drop_bit s (((b AND NOT (push_bit s (mask n))) OR (push_bit s v AND push_bit s (mask n)))
       AND push_bit s (mask n)) = take_bit n (take_bit (8 - s) v)"
  by (rule bit_eqI) (auto simp: bit_simps dest: bit_imp_le_length)

lemma take_bit_small:
  "unat (v :: uint8_t) < 2 ^ n \<Longrightarrow> take_bit n v = v"
  by (simp add: word_eq_iff_unsigned [where ?'a = nat] unsigned_take_bit_eq take_bit_nat_eq_self)

text \<open>
  Claim C7: for every field with \<open>0 \<le> length \<le> bitStart + 1 \<le> 8\<close> and every byte \<open>b\<close>
  that a successful read (count 1) left in the local buffer, \<open>I2Cdev_readBits\<close> returns
  the count and stores into \<open>*data\<close> the value
  \<open>(b & (((1 << length) - 1) << (bitStart - length + 1))) >> (bitStart - length + 1)\<close>,
  which is the field right-aligned: bit \<open>i\<close> of the result is bit
  \<open>i + (bitStart - length + 1)\<close> of \<open>b\<close> for \<open>i < length\<close>, and 0 above.
\<close>

theorem readBits_field:
  assumes valid: "unat len \<le> unat bitStart + 1" "unat bitStart + 1 \<le> 8"
    and rd: "I2Cdev_readByte T devAddr regAddr (filled b0) timeout h = (1, m, h1)"
    and b: "m 0 = b"
  shows "I2Cdev_readBits T devAddr regAddr bitStart len data timeout b0 h =
      (1, drop_bit (unat bitStart + 1 - unat len)
            (b AND push_bit (unat bitStart + 1 - unat len) (push_bit (unat len) 1 - 1)), h1)
    \<and> drop_bit (unat bitStart + 1 - unat len)
            (b AND push_bit (unat bitStart + 1 - unat len) (push_bit (unat len) 1 - 1))
       = take_bit (unat len) (drop_bit (unat bitStart + 1 - unat len) b)"
proof -
  have m: "push_bit (unat len) 1 - 1 = (mask (unat len) :: uint8_t)"
    by (simp add: push_bit_of_1 mask_eq_exp_minus_1)
  show ?thesis
    unfolding m
  proof (intro conjI)
    show "I2Cdev_readBits T devAddr regAddr bitStart len data timeout b0 h =
      (1, drop_bit (unat bitStart + 1 - unat len)
            (b AND push_bit (unat bitStart + 1 - unat len) (mask (unat len))), h1)"
      using rd b
      by (simp add: I2Cdev_readBits_def Let_def field_mask_eq field_shift_nat [OF valid(1)])
    show "drop_bit (unat bitStart + 1 - unat len)
            (b AND push_bit (unat bitStart + 1 - unat len) (mask (unat len)))
       = take_bit (unat len) (drop_bit (unat bitStart + 1 - unat len) b)"
      by (rule read_field)
  qed
qed

theorem readBits_field_witness:
  "unat (3 :: uint8_t) \<le> unat (4 :: uint8_t) + 1 \<and> unat (4 :: uint8_t) + 1 \<le> 8
   \<and> fst (I2Cdev_readByte scripted 0x68 0x3B (filled 0) 1000
        (boot 0x80 [0x08, 0x18, 0x28, 0x10, 0x40, 0x58] [0x69])) = 1
   \<and> fst (snd (I2Cdev_readByte scripted 0x68 0x3B (filled 0) 1000
        (boot 0x80 [0x08, 0x18, 0x28, 0x10, 0x40, 0x58] [0x69]))) 0 = 0x69
   \<and> fst (snd (I2Cdev_readBits scripted 0x68 0x3B 4 3 0 1000 0
        (boot 0x80 [0x08, 0x18, 0x28, 0x10, 0x40, 0x58] [0x69]))) = 2"
proof -
  let ?h = "boot 0x80 [0x08, 0x18, 0x28, 0x10, 0x40, 0x58] [0x69]"
  let ?r = "I2Cdev_readByte scripted 0x68 0x3B (filled 0) 1000 ?h"
  have v: "unat (3 :: uint8_t) \<le> unat (4 :: uint8_t) + 1" "unat (4 :: uint8_t) + 1 \<le> 8"
    by simp_all
  have c: "fst ?r = 1" and b: "fst (snd ?r) 0 = 0x69"
    by (simp_all add: exec)
  have p: "?r = (1, fst (snd ?r), snd (snd ?r))"
    using c by (metis prod.collapse)
  from readBits_field [OF v p b, of 0, THEN conjunct1] v c b show ?thesis
    by simp
qed

section \<open>Writing a single bit\<close>

lemma write_run:
  assumes "Fastwire_write T v h = (r, h')"
  shows "extends h h'" "twdr_writes (run_events h h') = [v]" "twdr_reads (run_events h h') = []"
proof -
  from assms obtain evs where evs: "trace h' = trace h @ WrTWDR v # evs"
    "twdr_writes evs = []" "twdr_reads evs = []"
  proof (cases rule: write_trace)
    case (timeout vs)
    with that [of "WrTWCR (cmd_GO T) # map RdTWCR vs"] show ?thesis by simp
  next
    case (status vs sr)
    with that [of "WrTWCR (cmd_GO T) # map RdTWCR vs @ [RdTWSR sr]"] show ?thesis by simp
  qed
  from evs(1) show "extends h h'"
    by (auto simp: extends_def)
  from evs show "twdr_writes (run_events h h') = [v]" "twdr_reads (run_events h h') = []"
    by (simp_all add: run_events_eq [OF evs(1)])
qed

lemma stop_run:
  assumes "Fastwire_stop T h = (r, h')"
  shows "extends h h'" "twdr_writes (run_events h h') = []" "twdr_reads (run_events h h') = []"
proof -
  from stop_trace [OF assms] obtain vs
    where t: "trace h' = trace h @ WrTWCR (cmd_STOP T) # map RdTWCR vs" .
  from t show "extends h h'"
    by (auto simp: extends_def)
  show "twdr_writes (run_events h h') = []" "twdr_reads (run_events h h') = []"
    by (simp_all add: run_events_eq [OF t])
qed

lemma beginTransmission_extends:
  assumes "Fastwire_beginTransmission T device h = (r, h')"
  shows "extends h h'"
proof -
  obtain res where "addr_loop T 1 2 3 (push_bit 1 device) TW_MT_SLA_NACK 2 h = (res, h')"
    using assms
    by (auto simp: Fastwire_beginTransmission_def split: prod.splits sum.splits if_splits)
  then show ?thesis by (rule addr_loop_extends)
qed

text \<open>A read of one byte that fails leaves the buffer as it was.\<close>

lemma readBuf_one_failed:
  assumes "Fastwire_readBuf T device address data 1 h = (st, data', h')" "st \<noteq> 0"
  shows "data' = data"
  using assms(1)
proof (cases rule: readBuf_phases)
  case (data_failed h1 vs sr h5 h6 e)
  from data_failed(5) show ?thesis
  proof (cases rule: readBuf_loop_cases)
    case (stored vs' sr' v h4)
    from stored(4) show ?thesis
      by (simp add: readBuf_loop.simps [of T "Suc 0" "Suc 0"])
  qed simp_all
next
  case (data_done h1 vs sr h5 h6 h7 ws)
  with assms(2) show ?thesis by simp
qed simp_all

lemma readByte_failed:
  assumes "I2Cdev_readByte T devAddr regAddr data timeout h = (cnt, m, h1)" "cnt \<noteq> 1"
  shows "m = data"
proof -
  obtain t1 h0 where ms: "millis T h = (t1, h0)"
    by (cases "millis T h")
  obtain st d2 h2
    where rb: "Fastwire_readBuf T (push_bit 1 devAddr) regAddr data 1 h0 = (st, d2, h2)"
    by (cases "Fastwire_readBuf T (push_bit 1 devAddr) regAddr data 1 h0")
  from assms(1) ms rb have m: "m = d2"
    and c: "cnt = fst (check_timeout T timeout t1 (if st = 0 then 1 else - 1) 1 h2)"
    by (auto simp: I2Cdev_readByte_def I2Cdev_readBytes_def Let_def split: prod.splits)
  have "st \<noteq> 0"
  proof
    assume "st = 0"
    with c have "cnt = 1"
      by (simp add: check_timeout_def split: prod.splits)
    with assms(2) show False by simp
  qed
  from readBuf_one_failed [OF rb this] m show ?thesis by simp
qed

lemma readWord_failed:
  assumes "I2Cdev_readWord T devAddr regAddr data timeout frame h = (cnt, m, h1)" "cnt \<noteq> 1"
  shows "m = data"
proof -
  obtain t1 h0 where ms: "millis T h = (t1, h0)"
    by (cases "millis T h")
  obtain st d2 h2
    where rb: "Fastwire_readBuf T (push_bit 1 devAddr) regAddr frame (1 * 2) h0 = (st, d2, h2)"
    by (cases "Fastwire_readBuf T (push_bit 1 devAddr) regAddr frame (1 * 2) h0")
  from assms(1) ms rb
  have m: "m = (if st = 0 then readWords_loop (little_endian T) d2 0 (unat (1 :: uint8_t)) data
                else data)"
    and c: "cnt = fst (check_timeout T timeout t1 (if st = 0 then 1 else - 1) 1 h2)"
    by (auto simp: I2Cdev_readWord_def I2Cdev_readWords_def Let_def split: prod.splits)
  have "st \<noteq> 0"
  proof
    assume "st = 0"
    with c have "cnt = 1"
      by (simp add: check_timeout_def split: prod.splits)
    with assms(2) show False by simp
  qed
  with m show ?thesis by simp
qed

lemma writeByte_run:
  assumes "I2Cdev_writeByte T devAddr regAddr b h = (r, h')"
  shows "r = 1 \<and> extends h h' \<and> (\<exists>pre. twdr_writes (run_events h h') = pre @ [regAddr, b])"
proof -
  obtain r0 h1 where bt: "Fastwire_beginTransmission T devAddr h = (r0, h1)"
    by (cases "Fastwire_beginTransmission T devAddr h")
  obtain r1 h2 where w1: "Fastwire_write T regAddr h1 = (r1, h2)"
    by (cases "Fastwire_write T regAddr h1")
  obtain r2 h3 where w2: "Fastwire_write T b h2 = (r2, h3)"
    by (cases "Fastwire_write T b h2")
  obtain r3 h4 where st: "Fastwire_stop T h3 = (r3, h4)"
    by (cases "Fastwire_stop T h3")
  have loop: "writeBytes_loop T 0 (unat (1 :: uint8_t)) (filled b) h2 = h3"
    using w2 by (simp add: writeBytes_loop.simps [of T 0] writeBytes_loop.simps [of T "Suc 0"]
        filled_def)
  from assms bt w1 loop st have r: "r = 1" and h': "h' = h4"
    by (simp_all add: I2Cdev_writeByte_def I2Cdev_writeBytes_def Let_def)
  note e01 = beginTransmission_extends [OF bt]
  note e12 = write_run(1) [OF w1]
  note e23 = write_run(1) [OF w2]
  note e34 = stop_run(1) [OF st]
  note e02 = extends_trans [OF e01 e12]
  note e03 = extends_trans [OF e02 e23]
  note e04 = extends_trans [OF e03 e34]
  have "run_events h h4 = run_events h h1 @ run_events h1 h2 @ run_events h2 h3 @ run_events h3 h4"
    by (simp add: run_events_trans [OF e03 e34] run_events_trans [OF e02 e23]
        run_events_trans [OF e01 e12])
  then have "twdr_writes (run_events h h4) = twdr_writes (run_events h h1) @ [regAddr, b]"
    by (simp add: write_run(2) [OF w1] write_run(2) [OF w2] stop_run(2) [OF st])
  with r h' e04 show ?thesis by blast
qed

lemma writeWord_run:
  "\<exists>r h' pre. I2Cdev_writeWord T devAddr regAddr w h = Some (r, h') \<and> extends h h'
     \<and> twdr_writes (run_events h h') = pre @ [regAddr, ucast (drop_bit 8 w), ucast w]"
proof -
  obtain r0 h1 where bt: "Fastwire_beginTransmission T devAddr h = (r0, h1)"
    by (cases "Fastwire_beginTransmission T devAddr h")
  obtain r1 h2 where w1: "Fastwire_write T regAddr h1 = (r1, h2)"
    by (cases "Fastwire_write T regAddr h1")
  obtain r2 h3 where w2: "Fastwire_write T (ucast (drop_bit 8 w)) h2 = (r2, h3)"
    by (cases "Fastwire_write T (ucast (drop_bit 8 w)) h2")
  obtain r3 h4 where w3: "Fastwire_write T (ucast w) h3 = (r3, h4)"
    by (cases "Fastwire_write T (ucast w) h3")
  obtain r4 h5 where st: "Fastwire_stop T h4 = (r4, h5)"
    by (cases "Fastwire_stop T h4")
  have loop: "writeWords_loop T 0 1 (filled w) 0 h2 = Some (r3, h4)"
    using w2 w3
    by (simp add: writeWords_loop.simps [of T 0] writeWords_loop.simps [of T 2] filled_def Let_def)
  from bt w1 loop st
  have res: "I2Cdev_writeWord T devAddr regAddr w h = Some ((if r3 = 0 then 1 else 0), h5)"
    by (simp add: I2Cdev_writeWord_def I2Cdev_writeWords_def Let_def)
  note e01 = beginTransmission_extends [OF bt]
  note e12 = write_run(1) [OF w1]
  note e23 = write_run(1) [OF w2]
  note e34 = write_run(1) [OF w3]
  note e45 = stop_run(1) [OF st]
  note e02 = extends_trans [OF e01 e12]
  note e03 = extends_trans [OF e02 e23]
  note e04 = extends_trans [OF e03 e34]
  note e05 = extends_trans [OF e04 e45]
  have "run_events h h5 = run_events h h1 @ run_events h1 h2 @ run_events h2 h3
      @ run_events h3 h4 @ run_events h4 h5"
    by (simp add: run_events_trans [OF e04 e45] run_events_trans [OF e03 e34]
        run_events_trans [OF e02 e23] run_events_trans [OF e01 e12])
  then have "twdr_writes (run_events h h5) =
      twdr_writes (run_events h h1) @ [regAddr, ucast (drop_bit 8 w), ucast w]"
    by (simp add: write_run(2) [OF w1] write_run(2) [OF w2] write_run(2) [OF w3]
        stop_run(2) [OF st])
  with res e05 show ?thesis by blast
qed

text \<open>
  Claim C10: \<open>I2Cdev_writeBit\<close> and \<open>I2Cdev_writeBitW\<close> write back whatever the read
  returned. For every target, state and arguments: the function's result is the result
  of \<open>I2Cdev_writeByte\<close> (\<open>I2Cdev_writeWord\<close>) run from the state the read left, with
  the byte (word) \<open>b\<close> computed from the local buffer \<open>m\<close>; the bytes that write puts
  into \<open>TWDR\<close> end with the register address and \<open>b\<close> (the high and the low byte of the
  word); and when the read did not return the count 1, the local buffer still holds its
  uninitialised value \<open>b0\<close> (\<open>w0\<close>). \<open>I2Cdev_writeBit\<close> returns 1 in every case, the
  value \<open>I2Cdev_writeBytes\<close> always returns; \<open>I2Cdev_writeBitW\<close> returns what
  \<open>I2Cdev_writeWord\<close> returns, and it does return.
\<close>

theorem writeBit_ignores_read_status:
  "(\<exists>cnt m h1 b h' pre.
       I2Cdev_readByte T devAddr regAddr (filled b0) readTimeout h = (cnt, m, h1)
     \<and> b = (if v \<noteq> 0 then m 0 OR bv (unat bitNum) else m 0 AND NOT (bv (unat bitNum)))
     \<and> I2Cdev_writeBit T readTimeout devAddr regAddr bitNum v b0 h = (1, h')
     \<and> I2Cdev_writeByte T devAddr regAddr b h1 = (1, h')
     \<and> twdr_writes (run_events h1 h') = pre @ [regAddr, b]
     \<and> (cnt \<noteq> 1 \<longrightarrow> m 0 = b0))
   \<and> (\<exists>cnt m h1 w r h' pre.
       I2Cdev_readWord T devAddr regAddr (filled w0) readTimeout frame h = (cnt, m, h1)
     \<and> w = (if x \<noteq> 0 then m 0 OR push_bit (unat bitNum) 1
            else m 0 AND NOT (push_bit (unat bitNum) 1))
     \<and> I2Cdev_writeBitW T readTimeout devAddr regAddr bitNum x w0 frame h = Some (r, h')
     \<and> I2Cdev_writeWord T devAddr regAddr w h1 = Some (r, h')
     \<and> twdr_writes (run_events h1 h') = pre @ [regAddr, ucast (drop_bit 8 w), ucast w]
     \<and> (cnt \<noteq> 1 \<longrightarrow> m 0 = w0))"
proof (intro conjI)
  obtain cnt m h1
    where rd: "I2Cdev_readByte T devAddr regAddr (filled b0) readTimeout h = (cnt, m, h1)"
    by (cases "I2Cdev_readByte T devAddr regAddr (filled b0) readTimeout h")
  define b where "b = (if v \<noteq> 0 then m 0 OR bv (unat bitNum) else m 0 AND NOT (bv (unat bitNum)))"
  obtain r h' where wr: "I2Cdev_writeByte T devAddr regAddr b h1 = (r, h')"
    by (cases "I2Cdev_writeByte T devAddr regAddr b h1")
  from writeByte_run [OF wr] obtain pre
    where run: "r = 1" "twdr_writes (run_events h1 h') = pre @ [regAddr, b]"
    by blast
  have "I2Cdev_writeBit T readTimeout devAddr regAddr bitNum v b0 h = (1, h')"
    using rd wr run(1) by (simp add: I2Cdev_writeBit_def Let_def b_def)
  moreover have "cnt \<noteq> 1 \<longrightarrow> m 0 = b0"
    using readByte_failed [OF rd] by (auto simp: filled_def)
  ultimately show "\<exists>cnt m h1 b h' pre.
       I2Cdev_readByte T devAddr regAddr (filled b0) readTimeout h = (cnt, m, h1)
     \<and> b = (if v \<noteq> 0 then m 0 OR bv (unat bitNum) else m 0 AND NOT (bv (unat bitNum)))
     \<and> I2Cdev_writeBit T readTimeout devAddr regAddr bitNum v b0 h = (1, h')
     \<and> I2Cdev_writeByte T devAddr regAddr b h1 = (1, h')
     \<and> twdr_writes (run_events h1 h') = pre @ [regAddr, b]
     \<and> (cnt \<noteq> 1 \<longrightarrow> m 0 = b0)"
    using rd wr run b_def by blast
next
  obtain cnt m h1
    where rd: "I2Cdev_readWord T devAddr regAddr (filled w0) readTimeout frame h = (cnt, m, h1)"
    by (cases "I2Cdev_readWord T devAddr regAddr (filled w0) readTimeout frame h")
  define w where "w = (if x \<noteq> 0 then m 0 OR push_bit (unat bitNum) 1
            else m 0 AND NOT (push_bit (unat bitNum) (1 :: uint16_t)))"
  from writeWord_run [of T devAddr regAddr w h1] obtain r h' pre
    where wr: "I2Cdev_writeWord T devAddr regAddr w h1 = Some (r, h')"
      and run: "twdr_writes (run_events h1 h') = pre @ [regAddr, ucast (drop_bit 8 w), ucast w]"
    by blast
  have "I2Cdev_writeBitW T readTimeout devAddr regAddr bitNum x w0 frame h = Some (r, h')"
    using rd wr by (simp add: I2Cdev_writeBitW_def Let_def w_def)
  moreover have "cnt \<noteq> 1 \<longrightarrow> m 0 = w0"
    using readWord_failed [OF rd] by (auto simp: filled_def)
  ultimately show "\<exists>cnt m h1 w r h' pre.
       I2Cdev_readWord T devAddr regAddr (filled w0) readTimeout frame h = (cnt, m, h1)
     \<and> w = (if x \<noteq> 0 then m 0 OR push_bit (unat bitNum) 1
            else m 0 AND NOT (push_bit (unat bitNum) 1))
     \<and> I2Cdev_writeBitW T readTimeout devAddr regAddr bitNum x w0 frame h = Some (r, h')
     \<and> I2Cdev_writeWord T devAddr regAddr w h1 = Some (r, h')
     \<and> twdr_writes (run_events h1 h') = pre @ [regAddr, ucast (drop_bit 8 w), ucast w]
     \<and> (cnt \<noteq> 1 \<longrightarrow> m 0 = w0)"
    using rd wr run w_def by blast
qed

theorem writeBit_ignores_read_status_witness:
  "fst (I2Cdev_readByte scripted 0x68 0x3B (filled 0xA0) 1000
      (boot 0x80 [0x08, 0x20, 0x08, 0x20, 0x08, 0x20, 0x08, 0x18, 0x28, 0x28, 0x28] [])) \<noteq> 1
   \<and> fst (snd (I2Cdev_readByte scripted 0x68 0x3B (filled 0xA0) 1000
      (boot 0x80 [0x08, 0x20, 0x08, 0x20, 0x08, 0x20, 0x08, 0x18, 0x28, 0x28, 0x28] []))) 0 = 0xA0
   \<and> fst (I2Cdev_writeBit scripted 1000 0x68 0x3B 3 1 0xA0
      (boot 0x80 [0x08, 0x20, 0x08, 0x20, 0x08, 0x20, 0x08, 0x18, 0x28, 0x28, 0x28] [])) = 1
   \<and> fst (I2Cdev_readWord scripted 0x68 0x3B (filled 0x1234) 1000 (filled 0)
      (boot 0x80 [0x08, 0x20, 0x08, 0x20, 0x08, 0x20, 0x08, 0x18, 0x28, 0x28, 0x28] [])) \<noteq> 1
   \<and> fst (snd (I2Cdev_readWord scripted 0x68 0x3B (filled 0x1234) 1000 (filled 0)
      (boot 0x80 [0x08, 0x20, 0x08, 0x20, 0x08, 0x20, 0x08, 0x18, 0x28, 0x28, 0x28] []))) 0
       = 0x1234"
proof -
  let ?h = "boot 0x80 [0x08, 0x20, 0x08, 0x20, 0x08, 0x20, 0x08, 0x18, 0x28, 0x28, 0x28] []"
  let ?rb = "I2Cdev_readByte scripted 0x68 0x3B (filled 0xA0) 1000 ?h"
  let ?rw = "I2Cdev_readWord scripted 0x68 0x3B (filled 0x1234) 1000 (filled 0) ?h"
  have cb: "fst ?rb \<noteq> 1" and cw: "fst ?rw \<noteq> 1"
    by (simp_all add: exec)
  note inst = writeBit_ignores_read_status [where T = scripted and devAddr = "0x68"
      and regAddr = "0x3B" and ?b0.0 = "0xA0" and readTimeout = 1000 and h = ?h and v = 1
      and bitNum = 3 and ?w0.0 = "0x1234" and frame = "filled 0" and x = 1]
  from inst [THEN conjunct1] obtain cnt m h1 h'
    where b: "?rb = (cnt, m, h1)" "cnt \<noteq> 1 \<longrightarrow> m 0 = 0xA0"
      "I2Cdev_writeBit scripted 1000 0x68 0x3B 3 1 0xA0 ?h = (1, h')"
    by blast
  from inst [THEN conjunct2] obtain cnt' m' h1'
    where w: "?rw = (cnt', m', h1')" "cnt' \<noteq> 1 \<longrightarrow> m' 0 = 0x1234"
    by blast
  from b cb w cw show ?thesis
    by simp
qed

section \<open>Round trip on a bus that stores what is written\<close>

lemma fe_not_1: "(0xFE :: uint8_t) = NOT 1"
  by simp

lemma address_byte:
  "(x :: uint8_t) * 2 AND 0xFE = x * 2" "(x * 2 OR 1) AND 0xFE = x * 2"
  "\<not> bit (x * 2) 0" "bit (y OR (1 :: uint8_t)) 0"
proof -
  have a: "push_bit 1 x AND 0xFE = push_bit 1 x"
    unfolding fe_not_1
    by (rule bit_eqI) (auto simp: bit_and_iff bit_not_iff bit_push_bit_iff bit_1_iff
        simp del: push_bit_of_Suc_0 push_bit_Suc)
  have b: "(push_bit 1 x OR 1) AND 0xFE = push_bit 1 x"
    unfolding fe_not_1
    by (rule bit_eqI) (auto simp: bit_and_iff bit_or_iff bit_not_iff bit_push_bit_iff bit_1_iff
        simp del: push_bit_of_Suc_0 push_bit_Suc)
  have c: "\<not> bit (push_bit 1 x) 0"
    by (simp add: bit_push_bit_iff del: push_bit_of_Suc_0 push_bit_Suc)
  from a show "x * 2 AND 0xFE = x * 2" by (simp add: push_bit_eq_mult)
  from b show "(x * 2 OR 1) AND 0xFE = x * 2" by (simp add: push_bit_eq_mult)
  from c show "\<not> bit (x * 2) 0" by (simp add: push_bit_eq_mult)
  show "bit (y OR 1) 0" by (simp add: bit_or_iff)
qed

lemmas mock_run = Fastwire_waitInt_def Fastwire_stop_def Fastwire_write_def
  Fastwire_beginTransmission_def Fastwire_readBuf_def check_timeout_def
  I2Cdev_readBytes_def I2Cdev_readByte_def I2Cdev_writeBytes_def I2Cdev_writeByte_def
  waitInt_loop_ready reg_defs bv_def TW_defs Let_def mock_target_def mock_TWCR_def address_byte
  addr_loop.simps readBuf_loop.simps writeBytes_loop.simps filled_def

lemma mock_readByte:
  assumes "slave (dev h) = devAddr"
  shows "\<exists>h1. I2Cdev_readByte mock_target devAddr regAddr data timeout h =
          (1, data(0 := regs (dev h) regAddr), h1)
       \<and> regs (dev h1) = regs (dev h) \<and> slave (dev h1) = slave (dev h)"
  using assms by (simp add: mock_run)

lemma mock_writeByte:
  assumes "slave (dev h) = devAddr"
  shows "\<exists>h1. I2Cdev_writeByte mock_target devAddr regAddr b h = (1, h1)
       \<and> regs (dev h1) = (regs (dev h))(regAddr := b) \<and> slave (dev h1) = slave (dev h)"
  using assms by (simp add: mock_run)

text \<open>
  Claim C6: on the simulated bus, whose slave stores every byte written to it, for
  every field with \<open>0 \<le> length \<le> bitStart + 1 \<le> 8\<close>, every register content and every
  value \<open>v < 2 ^ length\<close>: \<open>I2Cdev_writeBits\<close> returns 1, \<open>I2Cdev_readBits\<close> on the same
  field then returns the count 1 and the value \<open>v\<close>, the bits of the register inside
  the field are those of \<open>v\<close>, every bit outside the field is what it was, and no other
  register changes. The witness is the example of the specification: the register holds
  0b10101111, writing 0b010 at \<open>bitStart = 4\<close>, \<open>length = 3\<close> leaves 0b10101011 in it.
\<close>

theorem writeBits_readBits_roundtrip:
  assumes valid: "unat len \<le> unat bitStart + 1" "unat bitStart + 1 \<le> 8"
    and v: "unat v < 2 ^ unat len"
    and bus: "slave (dev h) = devAddr"
  shows "\<exists>h1 h2.
      I2Cdev_writeBits mock_target readTimeout devAddr regAddr bitStart len v b0 h = (1, h1)
    \<and> I2Cdev_readBits mock_target devAddr regAddr bitStart len data timeout b1 h1 = (1, v, h2)
    \<and> regs (dev h2) = regs (dev h1)
    \<and> regs (dev h1) regAddr =
          (regs (dev h) regAddr AND NOT (push_bit (unat bitStart + 1 - unat len) (mask (unat len))))
          OR push_bit (unat bitStart + 1 - unat len) v
    \<and> (\<forall>i. bit (regs (dev h1) regAddr) i \<longleftrightarrow>
          (if unat bitStart + 1 - unat len \<le> i \<and> i \<le> unat bitStart
           then bit v (i - (unat bitStart + 1 - unat len))
           else bit (regs (dev h) regAddr) i))
    \<and> (\<forall>a. a \<noteq> regAddr \<longrightarrow> regs (dev h1) a = regs (dev h) a)"
proof -
  define s where "s = unat bitStart + 1 - unat len"
  define n where "n = unat len"
  define old where "old = regs (dev h) regAddr"
  define new where "new = (old AND NOT (push_bit s (mask n))) OR (push_bit s v AND push_bit s (mask n))"
  have shift: "nat (field_shift bitStart len) = s"
    unfolding s_def by (rule field_shift_nat [OF valid(1)])
  have fm: "field_mask bitStart len = push_bit s (mask n)"
    by (simp add: field_mask_eq shift n_def)
  have sn: "s + n \<le> 8" "s + n = unat bitStart + 1"
    using valid by (simp_all add: s_def n_def)
  have vn: "take_bit n v = v"
    using v by (simp add: take_bit_small n_def)
  have v8: "take_bit (8 - s) v = v"
  proof (rule take_bit_small)
    have "(2 :: nat) ^ unat len \<le> 2 ^ (8 - s)"
      using sn(1) unfolding n_def by (intro power_increasing) simp_all
    with v show "unat v < 2 ^ (8 - s)" by (rule less_le_trans)
  qed
  have inside: "push_bit s v AND push_bit s (mask n) = push_bit s v"
  proof -
    have "push_bit s v AND push_bit s (mask n) = push_bit s (take_bit n v)"
      by (simp only: take_bit_eq_mask push_bit_and)
    with vn show ?thesis by simp
  qed
  text \<open>the write\<close>
  from mock_readByte [OF bus, of regAddr "filled b0" readTimeout] obtain ha
    where ra: "I2Cdev_readByte mock_target devAddr regAddr (filled b0) readTimeout h =
          (1, (filled b0)(0 := old), ha)"
      and ka: "regs (dev ha) = regs (dev h)" "slave (dev ha) = devAddr"
    using bus by (auto simp: old_def)
  from mock_writeByte [OF ka(2), of regAddr new] obtain h1
    where wa: "I2Cdev_writeByte mock_target devAddr regAddr new ha = (1, h1)"
      and k1: "regs (dev h1) = (regs (dev h))(regAddr := new)" "slave (dev h1) = devAddr"
    using ka by auto
  have w: "I2Cdev_writeBits mock_target readTimeout devAddr regAddr bitStart len v b0 h = (1, h1)"
    using ra wa by (simp add: I2Cdev_writeBits_def Let_def fm shift new_def)
  text \<open>the read\<close>
  from mock_readByte [OF k1(2), of regAddr "filled b1" timeout] obtain h2
    where rb: "I2Cdev_readByte mock_target devAddr regAddr (filled b1) timeout h1 =
          (1, (filled b1)(0 := new), h2)"
      and k2: "regs (dev h2) = regs (dev h1)"
    using k1 by auto
  have field: "drop_bit s (new AND push_bit s (mask n)) = v"
    unfolding new_def write_then_read_field vn v8 ..
  have r: "I2Cdev_readBits mock_target devAddr regAddr bitStart len data timeout b1 h1 = (1, v, h2)"
    using rb field by (simp add: I2Cdev_readBits_def Let_def fm shift)
  have val: "regs (dev h1) regAddr = (old AND NOT (push_bit s (mask n))) OR push_bit s v"
    using k1(1) by (simp add: new_def inside)
  have bits: "bit (regs (dev h1) regAddr) i \<longleftrightarrow>
      (if s \<le> i \<and> i \<le> unat bitStart then bit v (i - s) else bit old i)" for i
  proof -
    have "bit new i \<longleftrightarrow> (if s \<le> i \<and> i < s + n then i < 8 \<and> bit v (i - s) else bit old i)"
      unfolding new_def by (rule write_field_bits)
    moreover have "s \<le> i \<and> i < s + n \<longleftrightarrow> s \<le> i \<and> i \<le> unat bitStart"
      using sn(2) by auto
    moreover have "i < 8" if "s \<le> i" "i < s + n"
      using that sn(1) by simp
    ultimately show ?thesis
      using k1(1) by auto
  qed
  have others: "a \<noteq> regAddr \<longrightarrow> regs (dev h1) a = regs (dev h) a" for a
    using k1(1) by simp
  from w r k2 val bits others show ?thesis
    unfolding s_def n_def old_def by blast
qed

theorem writeBits_readBits_roundtrip_witness:
  "unat (3 :: uint8_t) \<le> unat (4 :: uint8_t) + 1 \<and> unat (4 :: uint8_t) + 1 \<le> 8
   \<and> unat (2 :: uint8_t) < 2 ^ unat (3 :: uint8_t)
   \<and> slave (dev mock_boot) = 0x68
   \<and> regs (dev mock_boot) 0x3B = 0xAF
   \<and> fst (I2Cdev_writeBits mock_target 1000 0x68 0x3B 4 3 2 0 mock_boot) = 1
   \<and> regs (dev (snd (I2Cdev_writeBits mock_target 1000 0x68 0x3B 4 3 2 0 mock_boot))) 0x3B = 0xAB
   \<and> fst (snd (I2Cdev_readBits mock_target 0x68 0x3B 4 3 0 1000 0
        (snd (I2Cdev_writeBits mock_target 1000 0x68 0x3B 4 3 2 0 mock_boot)))) = 2"
proof -
  have a: "unat (3 :: uint8_t) \<le> unat (4 :: uint8_t) + 1" "unat (4 :: uint8_t) + 1 \<le> 8"
    "unat (2 :: uint8_t) < 2 ^ unat (3 :: uint8_t)"
    by simp_all
  have b: "slave (dev mock_boot) = 0x68" and c: "regs (dev mock_boot) 0x3B = 0xAF"
    by (simp_all add: mock_boot_def)
  from writeBits_readBits_roundtrip [OF a b, where readTimeout = 1000 and regAddr = "0x3B"
      and ?b0.0 = 0 and data = 0 and timeout = 1000 and ?b1.0 = 0]
  obtain h1 h2
    where "I2Cdev_writeBits mock_target 1000 0x68 0x3B 4 3 2 0 mock_boot = (1, h1)"
      "I2Cdev_readBits mock_target 0x68 0x3B 4 3 0 1000 0 h1 = (1, 2, h2)"
      "regs (dev h1) 0x3B = (regs (dev mock_boot) 0x3B AND NOT (push_bit (unat (4 :: uint8_t) + 1
          - unat (3 :: uint8_t)) (mask (unat (3 :: uint8_t))))) OR
          push_bit (unat (4 :: uint8_t) + 1 - unat (3 :: uint8_t)) 2"
    by blast
  with a b c show ?thesis
    by (simp add: mask_eq_exp_minus_1)
qed

end
